theory Spec2Isabelle
  imports Main "HOL-Library.Word"
begin

section \<open>Python values used by the field codecs\<close>

text \<open>
  Exceptions are values. \<open>ValueError\<close> carries its message, because the source raises
  it for three different reasons. \<open>OtherException\<close> is an exception of any other class,
  by the name of the class; a JSON library may raise one.
\<close>

datatype pyerror =
    ValueError string
  | TypeError
  | AttributeError
  | OtherException string

text \<open>A \<open>timedelta\<close> is a signed count of microseconds.\<close>

type_synonym timedelta = int

text \<open>
  A \<open>tzinfo\<close> object is represented by what the source asks of it: the result of
  \<open>utcoffset(value)\<close>, which is a \<open>timedelta\<close> or \<open>None\<close>. Two aware datetimes are
  compared by their instants, so nothing else of a \<open>tzinfo\<close> takes part in an equality
  or in an order.
\<close>

datatype tzinfo = Tzinfo (utcoffset: "timedelta option")

record datetime =
  year :: int
  month :: int
  day :: int
  hour :: int
  minute :: int
  second :: int
  microsecond :: int
  tzinfo :: "tzinfo option"

section \<open>The standard library's proleptic Gregorian calendar\<close>

text \<open>
  \<open>calendar.timegm\<close> and \<open>datetime.utcfromtimestamp\<close> are the two library calls the
  timestamp field rests on. They are modelled by the algorithms of the standard
  library's \<open>datetime\<close> module (\<open>_ymd2ord\<close>, \<open>_ord2ymd\<close>), on unbounded integers.
\<close>

definition DAYS_IN_MONTH :: "int list" where
  "DAYS_IN_MONTH = [-1, 31, 28, 31, 30, 31, 30, 31, 31, 30, 31, 30, 31]"

definition DAYS_BEFORE_MONTH :: "int list" where
  "DAYS_BEFORE_MONTH = [-1, 0, 31, 59, 90, 120, 151, 181, 212, 243, 273, 304, 334]"

definition is_leap :: "int \<Rightarrow> bool" where
  "is_leap y \<longleftrightarrow> y mod 4 = 0 \<and> (y mod 100 \<noteq> 0 \<or> y mod 400 = 0)"

definition days_before_year :: "int \<Rightarrow> int" where
  "days_before_year y0 =
     (let y = y0 - 1 in y * 365 + y div 4 - y div 100 + y div 400)"

definition days_in_month :: "int \<Rightarrow> int \<Rightarrow> int" where
  "days_in_month y m =
     (if m = 2 \<and> is_leap y then 29 else DAYS_IN_MONTH ! nat m)"

definition days_before_month :: "int \<Rightarrow> int \<Rightarrow> int" where
  "days_before_month y m =
     DAYS_BEFORE_MONTH ! nat m + (if m > 2 \<and> is_leap y then 1 else 0)"

definition ymd2ord :: "int \<Rightarrow> int \<Rightarrow> int \<Rightarrow> int" where
  "ymd2ord y m d = days_before_year y + days_before_month y m + d"

definition DI400Y :: int where "DI400Y = days_before_year 401"
definition DI100Y :: int where "DI100Y = days_before_year 101"
definition DI4Y :: int where "DI4Y = days_before_year 5"

definition ord2ymd :: "int \<Rightarrow> int \<times> int \<times> int" where
  "ord2ymd n0 =
     (let n = n0 - 1;
          n400 = n div DI400Y; n = n mod DI400Y;
          y = n400 * 400 + 1;
          n100 = n div DI100Y; n = n mod DI100Y;
          n4 = n div DI4Y; n = n mod DI4Y;
          n1 = n div 365; n = n mod 365;
          y = y + n100 * 100 + n4 * 4 + n1
      in if n1 = 4 \<or> n100 = 4 then (y - 1, 12, 31)
         else
           let leapyear = (n1 = 3 \<and> (n4 \<noteq> 24 \<or> n100 = 3));
               m = (n + 50) div 32;
               preceding = DAYS_BEFORE_MONTH ! nat m
                           + (if m > 2 \<and> leapyear then 1 else 0)
           in if preceding > n
              then let m = m - 1;
                       preceding = preceding - (DAYS_IN_MONTH ! nat m
                                   + (if m = 2 \<and> leapyear then 1 else 0))
                   in (y, m, n - preceding + 1)
              else (y, m, n - preceding + 1))"

text \<open>
  \<open>date(year, month, day).toordinal()\<close>: the constructor checks its fields, then
  \<open>toordinal\<close> is \<open>_ymd2ord\<close>.
\<close>

definition MINYEAR :: int where "MINYEAR = 1"
definition MAXYEAR :: int where "MAXYEAR = 9999"

definition date_toordinal :: "int \<Rightarrow> int \<Rightarrow> int \<Rightarrow> pyerror + int" where
  "date_toordinal y m d =
     (if \<not> (MINYEAR \<le> y \<and> y \<le> MAXYEAR) then Inl (ValueError ''year is out of range'')
      else if \<not> (1 \<le> m \<and> m \<le> 12) then Inl (ValueError ''month must be in 1..12'')
      else if \<not> (1 \<le> d \<and> d \<le> days_in_month y m)
        then Inl (ValueError ''day is out of range for month'')
      else Inr (ymd2ord y m d))"

definition EPOCH_ORD :: int where "EPOCH_ORD = ymd2ord 1970 1 1"
definition MAXORDINAL :: int where "MAXORDINAL = ymd2ord 9999 12 31"

text \<open>
  \<open>calendar.timegm\<close> reads the first six fields of the time tuple
  (\<open>year, month, day, hour, minute, second = tuple[:6]\<close>).
\<close>

type_synonym timetuple6 = "int \<times> int \<times> int \<times> int \<times> int \<times> int"

definition timegm :: "timetuple6 \<Rightarrow> pyerror + int" where
  "timegm tuple =
     (case tuple of (year', month', day', hour', minute', second') \<Rightarrow>
        (case date_toordinal year' month' 1 of
           Inl e \<Rightarrow> Inl e
         | Inr ordinal \<Rightarrow>
             let days = ordinal - EPOCH_ORD + day' - 1;
                 hours = days * 24 + hour';
                 minutes = hours * 60 + minute';
                 seconds = minutes * 60 + second'
             in Inr seconds))"

text \<open>
  The invariant every \<open>datetime\<close> object satisfies: its constructor raises otherwise.
\<close>

definition valid_datetime :: "datetime \<Rightarrow> bool" where
  "valid_datetime t \<longleftrightarrow>
     MINYEAR \<le> year t \<and> year t \<le> MAXYEAR \<and>
     1 \<le> month t \<and> month t \<le> 12 \<and>
     1 \<le> day t \<and> day t \<le> days_in_month (year t) (month t) \<and>
     0 \<le> hour t \<and> hour t < 24 \<and>
     0 \<le> minute t \<and> minute t < 60 \<and>
     0 \<le> second t \<and> second t < 60 \<and>
     0 \<le> microsecond t \<and> microsecond t < 1000000"

definition timetuple :: "datetime \<Rightarrow> timetuple6" where
  "timetuple t = (year t, month t, day t, hour t, minute t, second t)"

text \<open>
  \<open>datetime.utcfromtimestamp\<close> on an integer count of seconds: \<open>gmtime\<close> splits the
  count into days and seconds of the day (POSIX time, no leap seconds), the day number
  becomes a date, and the constructor rejects a year outside \<open>MINYEAR..MAXYEAR\<close>
  (the interpreter's message names the year). The result is naive.
\<close>

definition utcfromtimestamp :: "int \<Rightarrow> pyerror + datetime" where
  "utcfromtimestamp t =
     (let days = t div 86400; rem = t mod 86400;
          n = days + EPOCH_ORD
      in if n < 1 \<or> n > MAXORDINAL then Inl (ValueError ''year is out of range'')
         else (case ord2ymd n of (y, m, d) \<Rightarrow>
           Inr \<lparr>year = y, month = m, day = d,
                hour = rem div 3600, minute = rem mod 3600 div 60, second = rem mod 60,
                microsecond = 0, tzinfo = None\<rparr>))"

definition replace_microsecond :: "datetime \<Rightarrow> int \<Rightarrow> pyerror + datetime" where
  "replace_microsecond t us =
     (if 0 \<le> us \<and> us \<le> 999999 then Inr (t\<lparr>microsecond := us\<rparr>)
      else Inl (ValueError ''microsecond must be in 0..999999''))"

text \<open>
  Chronological order of two aware datetimes with the same offset: the comparison of
  their fields, most significant first.
\<close>

definition cmp_key :: "datetime \<Rightarrow> int list" where
  "cmp_key t = [year t, month t, day t, hour t, minute t, second t, microsecond t]"

definition datetime_lt :: "datetime \<Rightarrow> datetime \<Rightarrow> bool" where
  "datetime_lt t1 t2 \<longleftrightarrow> ord_class.lexordp (cmp_key t1) (cmp_key t2)"

section \<open>Values crossing the field interface\<close>

text \<open>
  A text string is a list of code points; a byte string is a list of bytes. A float is
  carried as its 64 bits and never computed with. A \<open>dict\<close> is an association list
  with text keys, in insertion order.
\<close>

type_synonym pystr = "nat list"
type_synonym pybytes = "8 word list"

definition ascii :: "string \<Rightarrow> pystr" where
  "ascii s = map of_char s"

definition ascii_bytes :: "string \<Rightarrow> pybytes" where
  "ascii_bytes s = map of_char s"

datatype pyval =
    VNone
  | VBool bool
  | VInt int
  | VFloat "64 word"
  | VStr pystr
  | VBytes pybytes
  | VList "pyval list"
  | VDict "(pystr \<times> pyval) list"
  | VDatetime datetime

fun is_dict :: "pyval \<Rightarrow> bool" where
  "is_dict (VDict _) = True"
| "is_dict _ = False"

fun is_datetime :: "pyval \<Rightarrow> bool" where
  "is_datetime (VDatetime _) = True"
| "is_datetime _ = False"

text \<open>Truth value of an object, as \<open>if value\<close> tests it.\<close>

fun truthy :: "pyval \<Rightarrow> bool" where
  "truthy VNone = False"
| "truthy (VBool b) = b"
| "truthy (VInt n) = (n \<noteq> 0)"
| "truthy (VFloat w) = (w \<noteq> 0 \<and> w \<noteq> 0x8000000000000000)"
| "truthy (VStr s) = (s \<noteq> [])"
| "truthy (VBytes b) = (b \<noteq> [])"
| "truthy (VList xs) = (xs \<noteq> [])"
| "truthy (VDict m) = (m \<noteq> [])"
| "truthy (VDatetime _) = True"

section \<open>\<open>ComplexDateTimeField\<close>\<close>

definition SECOND_TO_MICROSECONDS :: int where
  "SECOND_TO_MICROSECONDS = 1000000"

definition UTC :: tzinfo where
  "UTC = Tzinfo (Some 0)"

text \<open>
  Modelled from the spec: \<open>date_utils.add_utc_tz\<close> of \<open>st2common.util.date\<close>, which is
  not among the sources. The spec has decode build a UTC Timestamp: the helper marks
  the naive result of \<open>utcfromtimestamp\<close> as UTC.
\<close>

definition add_utc_tz :: "datetime \<Rightarrow> datetime" where
  "add_utc_tz dt = dt\<lparr>tzinfo := Some UTC\<rparr>"

text \<open>
  \<open>_microseconds_since_epoch_to_datetime\<close>. The data is whatever the caller passes.
  \<open>//\<close> and \<open>%\<close> are floor division and its remainder, as \<open>div\<close> and \<open>mod\<close> are on
  \<open>int\<close>; a \<open>bool\<close> is an integer; on a float both work but \<open>replace\<close> rejects the
  float remainder with \<open>TypeError\<close>, unless \<open>utcfromtimestamp\<close> has raised on the quotient
  before (the model has \<open>TypeError\<close> for every float); on every other object \<open>//\<close>
  raises \<open>TypeError\<close>.
\<close>

definition int_microseconds_to_datetime :: "int \<Rightarrow> pyerror + datetime" where
  "int_microseconds_to_datetime data =
     (case utcfromtimestamp (data div SECOND_TO_MICROSECONDS) of
        Inl e \<Rightarrow> Inl e
      | Inr result \<Rightarrow>
          let microseconds_reminder = data mod SECOND_TO_MICROSECONDS in
          (case replace_microsecond result microseconds_reminder of
             Inl e \<Rightarrow> Inl e
           | Inr result \<Rightarrow> Inr (add_utc_tz result)))"

fun microseconds_since_epoch_to_datetime :: "pyval \<Rightarrow> pyerror + datetime" where
  "microseconds_since_epoch_to_datetime (VInt n) = int_microseconds_to_datetime n"
| "microseconds_since_epoch_to_datetime (VBool b) =
     int_microseconds_to_datetime (if b then 1 else 0)"
| "microseconds_since_epoch_to_datetime _ = Inl TypeError"

text \<open>
  \<open>_datetime_to_microseconds_since_epoch\<close>. Reading \<open>value.tzinfo\<close> of an object that is
  not a \<open>datetime\<close> raises \<open>AttributeError\<close>. The guard of the source,
  \<open>not value.tzinfo or value.tzinfo.utcoffset(value) != timedelta(0)\<close>, is \<open>not_utc\<close>: the
  second operand is evaluated only when there is a \<open>tzinfo\<close> (a \<open>tzinfo\<close> object is
  truthy), and an offset of \<open>None\<close> differs from \<open>timedelta(0)\<close>.
\<close>

definition INVALID_TIMEZONE :: pyerror where
  "INVALID_TIMEZONE = ValueError ''Value passed to this function needs to be in UTC timezone''"

definition not_utc :: "datetime \<Rightarrow> bool" where
  "not_utc v =
     (case tzinfo v of
        None \<Rightarrow> True
      | Some tz \<Rightarrow> utcoffset tz \<noteq> Some 0)"

fun datetime_to_microseconds_since_epoch :: "pyval \<Rightarrow> pyerror + int" where
  "datetime_to_microseconds_since_epoch (VDatetime v) =
     (if not_utc v
      then Inl INVALID_TIMEZONE
      else (case timegm (timetuple v) of
              Inl e \<Rightarrow> Inl e
            | Inr seconds \<Rightarrow>
                let microseconds_reminder = microsecond v
                in Inr (seconds * SECOND_TO_MICROSECONDS + microseconds_reminder)))"
| "datetime_to_microseconds_since_epoch _ = Inl AttributeError"

definition convert_from_datetime :: "pyval \<Rightarrow> pyerror + int" where
  "convert_from_datetime val = datetime_to_microseconds_since_epoch val"

definition convert_from_db :: "pyval \<Rightarrow> pyerror + datetime" where
  "convert_from_db v = microseconds_since_epoch_to_datetime v"

text \<open>
  The base field's descriptor keeps the value in the document's data under the field's
  name: \<open>__get__\<close> reads it (\<open>None\<close> when absent), \<open>__set__\<close> stores it. The field is
  taken to be declared without a default.
\<close>

type_synonym document = "string \<Rightarrow> pyval option"

definition BaseField_get :: "string \<Rightarrow> document \<Rightarrow> pyval" where
  "BaseField_get name inst = (case inst name of None \<Rightarrow> VNone | Some v \<Rightarrow> v)"

definition BaseField_set :: "string \<Rightarrow> document \<Rightarrow> pyval \<Rightarrow> document" where
  "BaseField_set name inst v = inst(name \<mapsto> v)"

definition ComplexDateTimeField_get :: "string \<Rightarrow> document \<Rightarrow> pyerror + pyval" where
  "ComplexDateTimeField_get name inst =
     (let data = BaseField_get name inst
      in if data = VNone then Inr VNone
         else if is_datetime data then Inr data
         else (case convert_from_db data of Inl e \<Rightarrow> Inl e | Inr d \<Rightarrow> Inr (VDatetime d)))"

definition ComplexDateTimeField_set :: "string \<Rightarrow> document \<Rightarrow> pyval \<Rightarrow> pyerror + document" where
  "ComplexDateTimeField_set name inst v =
     (if truthy v
      then (case convert_from_datetime v of
              Inl e \<Rightarrow> Inl e
            | Inr n \<Rightarrow> Inr (BaseField_set name inst (VInt n)))
      else Inr (BaseField_set name inst v))"

text \<open>\<open>to_python\<close>: the bare \<open>except\<close> turns every exception into the original value.\<close>

definition ComplexDateTimeField_to_python :: "pyval \<Rightarrow> pyerror + pyval" where
  "ComplexDateTimeField_to_python v =
     (let original_value = v
      in case convert_from_db v of
           Inr d \<Rightarrow> Inr (VDatetime d)
         | Inl _ \<Rightarrow> Inr original_value)"

section \<open>\<open>JSONDictField\<close>\<close>

text \<open>
  The JSON libraries are not part of the repository: they are parameters. \<open>dumps\<close>
  (\<open>encode\<close>) takes an object and returns text or bytes, or raises; \<open>loads\<close>
  (\<open>decode\<close>) takes text or bytes and returns an object, or raises. The three modules
  are taken to be installed, so the \<open>import\<close> statements succeed.
\<close>

datatype serialized = Text pystr | Binary pybytes

fun of_serialized :: "serialized \<Rightarrow> pyval" where
  "of_serialized (Text s) = VStr s"
| "of_serialized (Binary b) = VBytes b"

fun as_serialized :: "pyval \<Rightarrow> serialized option" where
  "as_serialized (VStr s) = Some (Text s)"
| "as_serialized (VBytes b) = Some (Binary b)"
| "as_serialized _ = None"

type_synonym loads_fn = "serialized \<Rightarrow> pyerror + pyval"
type_synonym dumps_fn = "pyval \<Rightarrow> pyerror + serialized"

record json_modules =
  orjson_loads :: loads_fn
  orjson_dumps :: dumps_fn
  ujson_loads :: loads_fn
  ujson_dumps :: dumps_fn
  cjson_decode :: loads_fn
  cjson_encode :: dumps_fn

text \<open>
  The field object: its two attributes, unset until \<open>__init__\<close> assigns them.
\<close>

record JSONDictField =
  json_loads :: "loads_fn option"
  json_dumps :: "dumps_fn option"

text \<open>
  \<open>__init__\<close>, given the value of the \<open>json_backend\<close> keyword (\<open>None\<close> when the
  keyword is absent). \<open>compression_algorithm\<close> is popped and not used.
\<close>

definition JSONDictField_init :: "json_modules \<Rightarrow> string option \<Rightarrow> pyerror + JSONDictField" where
  "JSONDictField_init mods kw =
     (let json_backend = (case kw of None \<Rightarrow> ''orjson'' | Some s \<Rightarrow> s)
      in if json_backend \<notin> set [''orjson'', ''ujson'', ''cjson'']
         then Inl (ValueError (''Unsupported backend: '' @ json_backend))
         else
           let self = \<lparr>json_loads = None, json_dumps = None\<rparr>
           in if json_backend = ''orjson''
              then Inr (self\<lparr>json_loads := Some (orjson_loads mods),
                             json_dumps := Some (orjson_dumps mods)\<rparr>)
              else if json_backend = ''ujson''
              then Inr (self\<lparr>json_loads := Some (ujson_loads mods),
                             json_dumps := Some (ujson_dumps mods)\<rparr>)
              else if json_backend = ''cjson''
              then Inr (self\<lparr>json_loads := Some (cjson_decode mods),
                             json_dumps := Some (cjson_encode mods)\<rparr>)
              else Inr self)"

definition NOT_A_MAPPING :: pyerror where
  "NOT_A_MAPPING = ValueError ''value argument must be a dictionary''"

text \<open>Calling an attribute that was never assigned raises \<open>AttributeError\<close>.\<close>

definition call_json_dumps :: "JSONDictField \<Rightarrow> pyval \<Rightarrow> pyerror + pyval" where
  "call_json_dumps self v =
     (case json_dumps self of
        None \<Rightarrow> Inl AttributeError
      | Some dumps \<Rightarrow> (case dumps v of Inl e \<Rightarrow> Inl e | Inr s \<Rightarrow> Inr (of_serialized s)))"

definition call_json_loads :: "JSONDictField \<Rightarrow> serialized \<Rightarrow> pyerror + pyval" where
  "call_json_loads self s =
     (case json_loads self of None \<Rightarrow> Inl AttributeError | Some loads \<Rightarrow> loads s)"

definition JSONDictField_to_mongo :: "JSONDictField \<Rightarrow> pyval \<Rightarrow> pyerror + pyval" where
  "JSONDictField_to_mongo self v =
     (if \<not> is_dict v then Inl NOT_A_MAPPING
      else let data = call_json_dumps self v in data)"

definition JSONDictField_to_python :: "JSONDictField \<Rightarrow> pyval \<Rightarrow> pyerror + pyval" where
  "JSONDictField_to_python self v =
     (case as_serialized v of
        Some s \<Rightarrow> call_json_loads self s
      | None \<Rightarrow> Inr v)"

section \<open>\<open>JSONDictEscapedFieldCompatibilityField\<close>\<close>

text \<open>
  \<open>mongoescape.unescape_chars\<close> of \<open>st2common.util.mongoescape\<close> is not among the
  sources. The spec describes it: walk the mapping recursively and restore the keys
  that were escaped because of the reserved characters \<open>$\<close> and \<open>.\<close>, leaving values
  that are not mappings untouched. The spec writes the escape of \<open>$\<close> as \<open>U+FF04\<close>
  (fullwidth dollar sign); the escape of \<open>.\<close> is taken to be its counterpart \<open>U+FF0E\<close>
  (fullwidth full stop), which the spec does not spell out.
\<close>

definition DOLLAR :: nat where "DOLLAR = 0x24"
definition DOT :: nat where "DOT = 0x2E"
definition ESCAPED_DOLLAR :: nat where "ESCAPED_DOLLAR = 0xFF04"
definition ESCAPED_DOT :: nat where "ESCAPED_DOT = 0xFF0E"

text \<open>
  Modelled from the spec: the translation of one character of a key that
  \<open>mongoescape.unescape_chars\<close> (absent) applies, an escape back to its reserved
  character.
\<close>

definition unescape_char :: "nat \<Rightarrow> nat" where
  "unescape_char c =
     (if c = ESCAPED_DOLLAR then DOLLAR else if c = ESCAPED_DOT then DOT else c)"

text \<open>
  Modelled from the spec: the restoring of one key by \<open>mongoescape.unescape_chars\<close>
  (absent), every character of the key translated.
\<close>

definition unescape_key :: "pystr \<Rightarrow> pystr" where
  "unescape_key k = map unescape_char k"

text \<open>
  Modelled from the spec: \<open>mongoescape.unescape_chars\<close> (absent). A mapping has its keys
  restored and its values walked; a value that is not a mapping is returned untouched.
\<close>

fun unescape_chars :: "pyval \<Rightarrow> pyval" where
  "unescape_chars (VDict m) = VDict (map (\<lambda>(k, v). (unescape_key k, unescape_chars v)) m)"
| "unescape_chars v = v"

text \<open>
  Modelled from the spec: the escaping that the legacy format applied to a key
  (\<open>mongoescape.escape_chars\<close>, absent), a reserved character replaced by its escape. No
  operation of the fields calls it; it says what an escaped key is.
\<close>

definition escape_char :: "nat \<Rightarrow> nat" where
  "escape_char c =
     (if c = DOLLAR then ESCAPED_DOLLAR else if c = DOT then ESCAPED_DOT else c)"

definition escape_key :: "pystr \<Rightarrow> pystr" where
  "escape_key k = map escape_char k"

definition JSONDictEscapedFieldCompatibilityField_to_mongo ::
  "JSONDictField \<Rightarrow> pyval \<Rightarrow> pyerror + pyval" where
  "JSONDictEscapedFieldCompatibilityField_to_mongo self v =
     (if \<not> is_dict v then Inl NOT_A_MAPPING
      else call_json_dumps self v)"

definition JSONDictEscapedFieldCompatibilityField_to_python ::
  "JSONDictField \<Rightarrow> pyval \<Rightarrow> pyerror + pyval" where
  "JSONDictEscapedFieldCompatibilityField_to_python self v =
     (if is_dict v then Inr (unescape_chars v)
      else (case as_serialized v of
              Some s \<Rightarrow> call_json_loads self s
            | None \<Rightarrow> Inr v))"

section \<open>Auxiliary notions for the proofs\<close>

text \<open>
  The month and day that \<open>_ord2ymd\<close> computes from the day of the year, as a function
  of its own; \<open>ord2ymd_alt\<close> below shows that \<open>ord2ymd\<close> is built from it.
\<close>

definition month_day :: "bool \<Rightarrow> int \<Rightarrow> int \<times> int" where
  "month_day leapyear n =
     (let m = (n + 50) div 32;
          preceding = DAYS_BEFORE_MONTH ! nat m
                      + (if m > 2 \<and> leapyear then 1 else 0)
      in if preceding > n
         then let m = m - 1;
                  preceding = preceding - (DAYS_IN_MONTH ! nat m
                              + (if m = 2 \<and> leapyear then 1 else 0))
              in (m, n - preceding + 1)
         else (m, n - preceding + 1))"

definition valid_date :: "int \<Rightarrow> int \<Rightarrow> int \<Rightarrow> bool" where
  "valid_date y m d \<longleftrightarrow> 1 \<le> m \<and> m \<le> 12 \<and> 1 \<le> d \<and> d \<le> days_in_month y m"

text \<open>
  The number the encoder computes for a valid datetime, written in one expression.
\<close>

definition total_seconds :: "datetime \<Rightarrow> int" where
  "total_seconds t =
     (ymd2ord (year t) (month t) (day t) - 719163) * 86400
     + ((hour t * 60 + minute t) * 60 + second t)"

definition total_microseconds :: "datetime \<Rightarrow> int" where
  "total_microseconds t = total_seconds t * 1000000 + microsecond t"

text \<open>
  The encoded values of the first and the last instant a \<open>datetime\<close> can hold:
  \<open>0001-01-01T00:00:00.000000\<close> and \<open>9999-12-31T23:59:59.999999\<close>.
\<close>

definition MIN_ENCODED :: int where "MIN_ENCODED = - 62135596800000000"
definition MAX_ENCODED :: int where "MAX_ENCODED = 253402300799999999"

text \<open>A datetime is in UTC when it carries a \<open>tzinfo\<close> whose offset is zero.\<close>

definition is_utc :: "datetime \<Rightarrow> bool" where
  "is_utc t = (case tzinfo t of None \<Rightarrow> False | Some tz \<Rightarrow> utcoffset tz = Some 0)"

text \<open>The instant of the spec's example, \<open>2021-03-15T10:30:00.123456\<close> UTC.\<close>

definition example_datetime :: datetime where
  "example_datetime =
     \<lparr>year = 2021, month = 3, day = 15, hour = 10, minute = 30, second = 0,
      microsecond = 123456, tzinfo = Some UTC\<rparr>"

definition example_datetime_later :: datetime where
  "example_datetime_later = example_datetime\<lparr>microsecond := 123457\<rparr>"

text \<open>
  Three more datetimes for the examples: a naive one, one in a zone two hours east of
  UTC, and one whose \<open>tzinfo\<close> gives no offset.
\<close>

definition example_naive :: datetime where
  "example_naive = example_datetime\<lparr>tzinfo := None\<rparr>"



section \<open>Structural equality and the contract of a JSON library\<close>



section \<open>Example documents and an example library\<close>

text \<open>
  The documents of the spec's examples: \<open>{"status": "ok", "count": 3}\<close> with its
  compact JSON text, the legacy mapping with the key \<open>a\<close>, \<open>U+FF04\<close>, \<open>ref\<close>, and the
  two mappings with the keys \<open>a$ref\<close> and \<open>$ref\<close>.
\<close>

definition example_document :: pyval where
  "example_document = VDict [(ascii ''status'', VStr (ascii ''ok'')), (ascii ''count'', VInt 3)]"

definition example_json :: string where
  "example_json = [CHR ''{'', CHR 0x22] @ ''status'' @ [CHR 0x22, CHR '':'', CHR 0x22] @ ''ok''
     @ [CHR 0x22, CHR '','', CHR 0x22] @ ''count'' @ [CHR 0x22, CHR '':'', CHR ''3'', CHR ''}'']"

definition legacy_document :: pyval where
  "legacy_document = VDict [(ascii ''a'' @ [0xFF04] @ ascii ''ref'', VInt 1)]"

definition restored_document :: pyval where
  "restored_document = VDict [(ascii ''a$ref'', VInt 1)]"

definition dollar_ref_document :: pyval where
  "dollar_ref_document = VDict [(ascii ''$ref'', VInt 1)]"

definition restored_json :: string where
  "restored_json = [CHR ''{'', CHR 0x22] @ ''a$ref'' @ [CHR 0x22, CHR '':'', CHR ''1'', CHR ''}'']"

text \<open>
  An example library that knows these two documents and refuses everything else. The
  first variant returns bytes, as \<open>orjson\<close> does, the second text, as \<open>ujson\<close> and
  \<open>cjson\<close> do.
\<close>

definition example_table :: "(pyval \<times> string) list" where
  "example_table = [(example_document, example_json), (restored_document, restored_json)]"

definition table_dumps :: "(string \<Rightarrow> serialized) \<Rightarrow> dumps_fn" where
  "table_dumps mk v =
     (case map_of example_table v of None \<Rightarrow> Inl TypeError | Some j \<Rightarrow> Inr (mk j))"

definition table_loads :: "(string \<Rightarrow> serialized) \<Rightarrow> loads_fn" where
  "table_loads mk s =
     (case find (\<lambda>(v, j). mk j = s) example_table of
        None \<Rightarrow> Inl (ValueError ''malformed JSON'')
      | Some (v, j) \<Rightarrow> Inr v)"

definition as_bytes :: "string \<Rightarrow> serialized" where
  "as_bytes j = Binary (ascii_bytes j)"

definition as_text :: "string \<Rightarrow> serialized" where
  "as_text j = Text (ascii j)"

definition example_modules :: json_modules where
  "example_modules =
     \<lparr>orjson_loads = table_loads as_bytes, orjson_dumps = table_dumps as_bytes,
      ujson_loads = table_loads as_text, ujson_dumps = table_dumps as_text,
      cjson_decode = table_loads as_text, cjson_encode = table_dumps as_text\<rparr>"

definition example_field :: JSONDictField where
  "example_field =
     \<lparr>json_loads = Some (table_loads as_bytes), json_dumps = Some (table_dumps as_bytes)\<rparr>"
section \<open>The calendar: \<open>ord2ymd\<close> and \<open>ymd2ord\<close> are inverse\<close>

lemma DI_consts: "DI400Y = 146097" "DI100Y = 36524" "DI4Y = 1461"
  by (simp_all add: DI400Y_def DI100Y_def DI4Y_def days_before_year_def)

lemma div_decomp: "0 \<le> r \<Longrightarrow> r < d \<Longrightarrow> (d * k + r) div d = (k::int)"
  by (simp add: div_pos_pos_trivial)

lemma mod_decomp: "0 \<le> r \<Longrightarrow> r < d \<Longrightarrow> (d * k + r) mod d = (r::int)"
  by simp

lemma mod_decomp_zero:
  assumes "0 < r" "r \<le> d"
  shows "(d * k + r) mod d = 0 \<longleftrightarrow> r = (d::int)"
proof (cases "r = d")
  case True
  then show ?thesis by simp
next
  case False
  with assms have "r < d" by simp
  with assms show ?thesis using mod_decomp [of r d k] by simp
qed

lemma is_leap_decomp:
  assumes "0 \<le> a" "a \<le> 3" "0 \<le> b" "b \<le> 24" "0 \<le> c" "c \<le> 3"
  shows "is_leap (400 * q + 100 * a + 4 * b + c + 1)
         \<longleftrightarrow> (c = 3 \<and> (b \<noteq> 24 \<or> a = 3))"
proof -
  let ?y = "400 * q + 100 * a + 4 * b + c + 1"
  have "?y = 4 * (100 * q + 25 * a + b) + (c + 1)" by simp
  moreover have "(4 * (100 * q + 25 * a + b) + (c + 1)) mod 4 = 0 \<longleftrightarrow> c + 1 = 4"
    by (rule mod_decomp_zero) (use assms in simp_all)
  moreover have "c + 1 = 4 \<longleftrightarrow> c = 3" by linarith
  ultimately have m4: "?y mod 4 = 0 \<longleftrightarrow> c = 3" by (simp only:)
  have "?y = 100 * (4 * q + a) + (4 * b + c + 1)" by simp
  moreover have "(100 * (4 * q + a) + (4 * b + c + 1)) mod 100 = 0 \<longleftrightarrow> 4 * b + c + 1 = 100"
    by (rule mod_decomp_zero) (use assms in simp_all)
  moreover have "4 * b + c + 1 = 100 \<longleftrightarrow> (b = 24 \<and> c = 3)" using assms by linarith
  ultimately have m100: "?y mod 100 = 0 \<longleftrightarrow> (b = 24 \<and> c = 3)" by (simp only:)
  have "?y = 400 * q + (100 * a + 4 * b + c + 1)" by simp
  moreover have "(400 * q + (100 * a + 4 * b + c + 1)) mod 400 = 0 \<longleftrightarrow> 100 * a + 4 * b + c + 1 = 400"
    by (rule mod_decomp_zero) (use assms in simp_all)
  moreover have "100 * a + 4 * b + c + 1 = 400 \<longleftrightarrow> (a = 3 \<and> b = 24 \<and> c = 3)"
    using assms by linarith
  ultimately have m400: "?y mod 400 = 0 \<longleftrightarrow> (a = 3 \<and> b = 24 \<and> c = 3)" by (simp only:)
  show ?thesis unfolding is_leap_def m4 m100 m400 by auto
qed

lemma days_before_year_decomp:
  assumes "0 \<le> a" "a \<le> 3" "0 \<le> b" "b \<le> 24" "0 \<le> c" "c \<le> 3"
  shows "days_before_year (400 * q + 100 * a + 4 * b + c + 1)
         = 146097 * q + 36524 * a + 1461 * b + 365 * c"
proof -
  let ?y = "400 * q + 100 * a + 4 * b + c"
  have "?y = 4 * (100 * q + 25 * a + b) + c" by simp
  then have d4: "?y div 4 = 100 * q + 25 * a + b"
    using div_decomp [of c 4 "100 * q + 25 * a + b"] assms by simp
  have "?y = 100 * (4 * q + a) + (4 * b + c)" by simp
  then have d100: "?y div 100 = 4 * q + a"
    using div_decomp [of "4 * b + c" 100 "4 * q + a"] assms by simp
  have "?y = 400 * q + (100 * a + 4 * b + c)" by simp
  then have d400: "?y div 400 = q"
    using div_decomp [of "100 * a + 4 * b + c" 400 q] assms by simp
  show ?thesis
    unfolding days_before_year_def Let_def
    using d4 d100 d400 by simp
qed

lemma int_range_12:
  assumes "1 \<le> (k::int)" "k \<le> 12"
  shows "k \<in> {1, 2, 3, 4, 5, 6, 7, 8, 9, 10, 11, 12}"
proof (cases "k \<le> 6")
  case True
  with assms have "k = 1 \<or> k = 2 \<or> k = 3 \<or> k = 4 \<or> k = 5 \<or> k = 6" by linarith
  then show ?thesis by blast
next
  case False
  with assms have "k = 7 \<or> k = 8 \<or> k = 9 \<or> k = 10 \<or> k = 11 \<or> k = 12" by linarith
  then show ?thesis by blast
qed

lemma month_day_correct:
  assumes "0 \<le> n" "n < 365" "month_day L n = (m, d)"
  shows "1 \<le> m \<and> m \<le> 12 \<and> 1 \<le> d
       \<and> d \<le> DAYS_IN_MONTH ! nat m + (if m = 2 \<and> L then 1 else 0)
       \<and> DAYS_BEFORE_MONTH ! nat m + (if m > 2 \<and> L then 1 else 0) + d = n + 1"
proof -
  define k where "k = (n + 50) div 32"
  have kb: "32 * k \<le> n + 50" "n + 50 < 32 * k + 32" unfolding k_def by linarith+
  then have "1 \<le> k" "k \<le> 12" using assms by linarith+
  then have "k \<in> {1, 2, 3, 4, 5, 6, 7, 8, 9, 10, 11, 12}" by (rule int_range_12)
  then consider "k = 1" | "k = 2" | "k = 3" | "k = 4" | "k = 5" | "k = 6"
    | "k = 7" | "k = 8" | "k = 9" | "k = 10" | "k = 11" | "k = 12"
    by blast
  then show ?thesis
  proof cases
    case 1
    then show ?thesis using assms kb
      by (auto simp: month_day_def Let_def k_def [symmetric] DAYS_BEFORE_MONTH_def DAYS_IN_MONTH_def split: if_splits)
  next
    case 2
    then show ?thesis using assms kb
      by (auto simp: month_day_def Let_def k_def [symmetric] DAYS_BEFORE_MONTH_def DAYS_IN_MONTH_def split: if_splits)
  next
    case 3
    then show ?thesis using assms kb
      by (auto simp: month_day_def Let_def k_def [symmetric] DAYS_BEFORE_MONTH_def DAYS_IN_MONTH_def split: if_splits)
  qed (insert assms kb, auto simp: month_day_def Let_def k_def [symmetric] DAYS_BEFORE_MONTH_def DAYS_IN_MONTH_def split: if_splits)
qed

lemma ord2ymd_alt:
  "ord2ymd n0 =
     (let r1 = (n0 - 1) mod 146097; q = (n0 - 1) div 146097;
          a = r1 div 36524; r2 = r1 mod 36524;
          b = r2 div 1461; r3 = r2 mod 1461;
          c = r3 div 365; r4 = r3 mod 365;
          y = q * 400 + 1 + a * 100 + b * 4 + c
      in if c = 4 \<or> a = 4 then (y - 1, 12, 31)
         else (case month_day (c = 3 \<and> (b \<noteq> 24 \<or> a = 3)) r4 of (m, d) \<Rightarrow> (y, m, d)))"
  unfolding ord2ymd_def month_day_def Let_def DI_consts
  by (simp only: prod.case if_distrib [of "case_prod f" for f])

lemma divmod_bounds:
  assumes "0 < (k::int)"
  shows "x = k * (x div k) + x mod k" "0 \<le> x mod k" "x mod k < k"
  using assms by simp_all

lemma ord2ymd_correct:
  assumes "ord2ymd n = (y, m, d)"
  shows "1 \<le> m \<and> m \<le> 12 \<and> 1 \<le> d \<and> d \<le> days_in_month y m \<and> ymd2ord y m d = n"
proof -
  define q where "q = (n - 1) div 146097"
  define r1 where "r1 = (n - 1) mod 146097"
  define a where "a = r1 div 36524"
  define r2 where "r2 = r1 mod 36524"
  define b where "b = r2 div 1461"
  define r3 where "r3 = r2 mod 1461"
  define c where "c = r3 div 365"
  define r4 where "r4 = r3 mod 365"
  have e1: "n - 1 = 146097 * q + r1" "0 \<le> r1" "r1 < 146097"
    unfolding q_def r1_def by simp_all
  have e2: "r1 = 36524 * a + r2" "0 \<le> r2" "r2 < 36524"
    unfolding a_def r2_def by simp_all
  have e3: "r2 = 1461 * b + r3" "0 \<le> r3" "r3 < 1461"
    unfolding b_def r3_def by simp_all
  have e4: "r3 = 365 * c + r4" "0 \<le> r4" "r4 < 365"
    unfolding c_def r4_def by simp_all
  have ab: "0 \<le> a" "a \<le> 4" using e1 e2 by linarith+
  have bb: "0 \<le> b" "b \<le> 24" using e2 e3 by linarith+
  have cb: "0 \<le> c" "c \<le> 4" using e3 e4 by linarith+
  have res: "(y, m, d) =
     (if c = 4 \<or> a = 4 then (q * 400 + 1 + a * 100 + b * 4 + c - 1, 12, 31)
      else (case month_day (c = 3 \<and> (b \<noteq> 24 \<or> a = 3)) r4 of
              (m, d) \<Rightarrow> (q * 400 + 1 + a * 100 + b * 4 + c, m, d)))"
    using assms unfolding ord2ymd_alt Let_def q_def r1_def a_def r2_def b_def r3_def c_def r4_def
    by (simp only:)
  show ?thesis
  proof (cases "a = 4")
    case True
    then have z: "r2 = 0" "b = 0" "r3 = 0" "c = 0" using e1 e2 e3 e4 bb cb by linarith+
    have yy: "y = 400 * q + 100 * 3 + 4 * 24 + 3 + 1" "m = 12" "d = 31"
      using res True z by simp_all
    have lp: "is_leap y" unfolding yy by (subst is_leap_decomp) simp_all
    have dby: "days_before_year y = 146097 * q + 36524 * 3 + 1461 * 24 + 365 * 3"
      unfolding yy by (rule days_before_year_decomp) simp_all
    show ?thesis using lp dby yy(2,3) e1 e2 True z
      by (simp add: ymd2ord_def days_in_month_def days_before_month_def
          DAYS_IN_MONTH_def DAYS_BEFORE_MONTH_def)
  next
    case a4: False
    then have a3: "a \<le> 3" using ab by simp
    show ?thesis
    proof (cases "c = 4")
      case True
      then have z: "r4 = 0" "b \<le> 23" using e2 e3 e4 by linarith+
      have yy: "y = 400 * q + 100 * a + 4 * b + 3 + 1" "m = 12" "d = 31"
        using res True by simp_all
      have lp: "is_leap y" unfolding yy using ab(1) a3 bb z
        by (subst is_leap_decomp) simp_all
      have dby: "days_before_year y = 146097 * q + 36524 * a + 1461 * b + 365 * 3"
        unfolding yy using ab(1) a3 bb by (intro days_before_year_decomp) simp_all
      show ?thesis using lp dby yy(2,3) e1 e2 e3 e4 True z
        by (simp add: ymd2ord_def days_in_month_def days_before_month_def
            DAYS_IN_MONTH_def DAYS_BEFORE_MONTH_def)
    next
      case False
      then have c3: "c \<le> 3" using cb by simp
      let ?L = "c = 3 \<and> (b \<noteq> 24 \<or> a = 3)"
      have yy: "y = 400 * q + 100 * a + 4 * b + c + 1" and md: "month_day ?L r4 = (m, d)"
        using res False a4 by (auto split: prod.splits)
      have lp: "is_leap y \<longleftrightarrow> ?L" unfolding yy using ab(1) a3 bb cb(1) c3
        by (intro is_leap_decomp) simp_all
      have dby: "days_before_year y = 146097 * q + 36524 * a + 1461 * b + 365 * c"
        unfolding yy using ab(1) a3 bb cb(1) c3 by (intro days_before_year_decomp) simp_all
      from month_day_correct [OF e4(2) e4(3) md]
      have mdc: "1 \<le> m" "m \<le> 12" "1 \<le> d"
        "d \<le> DAYS_IN_MONTH ! nat m + (if m = 2 \<and> ?L then 1 else 0)"
        "DAYS_BEFORE_MONTH ! nat m + (if m > 2 \<and> ?L then 1 else 0) + d = r4 + 1"
        by simp_all
      have dim: "d \<le> days_in_month y m"
        using mdc(4) lp by (auto simp: days_in_month_def DAYS_IN_MONTH_def split: if_splits)
      have "ymd2ord y m d = n"
        using mdc(5) lp dby e1 e2 e3 e4
        by (simp add: ymd2ord_def days_before_month_def)
      then show ?thesis using mdc(1,2,3) dim by simp
    qed
  qed
qed

lemma div_step:
  assumes "0 < (k::int)"
  shows "y div k = (y - 1) div k + (if y mod k = 0 then 1 else 0)"
proof -
  define q where "q = (y - 1) div k"
  define r where "r = (y - 1) mod k"
  have e: "y - 1 = k * q + r" "0 \<le> r" "r < k" using assms unfolding q_def r_def by simp_all
  show ?thesis
  proof (cases "r + 1 = k")
    case True
    then have "y = k * (q + 1) + 0" using e by (simp add: algebra_simps)
    then have "y div k = q + 1" "y mod k = 0"
      using div_decomp [of 0 k "q + 1"] mod_decomp [of 0 k "q + 1"] assms by simp_all
    then show ?thesis unfolding q_def [symmetric] by simp
  next
    case False
    then have "y = k * q + (r + 1)" "0 \<le> r + 1" "r + 1 < k" using e by simp_all
    then have "y div k = q" "y mod k = r + 1"
      using div_decomp [of "r + 1" k q] mod_decomp [of "r + 1" k q] by simp_all
    then show ?thesis using e(2) unfolding q_def [symmetric] by simp
  qed
qed

lemma leap_indicator:
  "(p400 \<longrightarrow> p100) \<Longrightarrow> (p100 \<longrightarrow> p4) \<Longrightarrow>
      (if p4 then 1 else 0) - (if p100 then 1 else 0) + (if p400 then 1 else 0)
      = (if p4 \<and> (\<not> p100 \<or> p400) then 1 else (0::int))"
  by (cases p4; cases p100; cases p400; simp)

lemma days_before_year_step:
  "days_before_year (y + 1) = days_before_year y + 365 + (if is_leap y then 1 else 0)"
proof -
  define i4 :: int where "i4 = (if y mod 4 = 0 then 1 else 0)"
  define i100 :: int where "i100 = (if y mod 100 = 0 then 1 else 0)"
  define i400 :: int where "i400 = (if y mod 400 = 0 then 1 else 0)"
  define A where "A = (y - 1) div 4"
  define B where "B = (y - 1) div 100"
  define C where "C = (y - 1) div 400"
  have d: "y div 4 = A + i4" "y div 100 = B + i100" "y div 400 = C + i400"
    unfolding A_def B_def C_def i4_def i100_def i400_def by (rule div_step, simp)+
  have "y + 1 - 1 = y" by simp
  then have "days_before_year (y + 1) = y * 365 + y div 4 - y div 100 + y div 400"
    unfolding days_before_year_def Let_def by (simp only:)
  then have n: "days_before_year (y + 1) = y * 365 + (A + i4) - (B + i100) + (C + i400)"
    unfolding d .
  have o: "days_before_year y = (y - 1) * 365 + A - B + C"
    unfolding days_before_year_def Let_def A_def B_def C_def ..
  have m1: "y mod 400 = 0 \<Longrightarrow> y mod 100 = 0"
    using dvd_trans [of 100 400 y] by (simp add: mod_eq_0_iff_dvd)
  have m2: "y mod 100 = 0 \<Longrightarrow> y mod 4 = 0"
    using dvd_trans [of 4 100 y] by (simp add: mod_eq_0_iff_dvd)
  define l :: int where "l = (if is_leap y then 1 else 0)"
  have "i4 - i100 + i400 = l"
    unfolding i4_def i100_def i400_def is_leap_def l_def
    by (rule leap_indicator) (rule impI, erule m1, rule impI, erule m2)
  then show ?thesis unfolding l_def [symmetric] n o by (simp add: algebra_simps)
qed

lemma days_before_year_mono:
  assumes "y \<le> y'"
  shows "days_before_year y \<le> days_before_year y'"
  using assms
proof (induction y' rule: int_ge_induct)
  case base
  show ?case by simp
next
  case (step i)
  then show ?case using days_before_year_step [of i] by (simp split: if_splits)
qed

lemma days_before_month_step:
  assumes "1 \<le> m" "m \<le> 11"
  shows "days_before_month y (m + 1) = days_before_month y m + days_in_month y m"
proof -
  have "m \<in> {1, 2, 3, 4, 5, 6, 7, 8, 9, 10, 11, 12}"
    using assms by (intro int_range_12) simp_all
  then show ?thesis using assms(2)
    by (auto simp: days_before_month_def days_in_month_def DAYS_IN_MONTH_def DAYS_BEFORE_MONTH_def)
qed

lemma days_in_month_ge:
  assumes "1 \<le> m" "m \<le> 12"
  shows "28 \<le> days_in_month y m"
proof -
  have "m \<in> {1, 2, 3, 4, 5, 6, 7, 8, 9, 10, 11, 12}"
    using assms by (rule int_range_12)
  then show ?thesis
    by (auto simp: days_in_month_def DAYS_IN_MONTH_def)
qed

lemma days_before_month_mono:
  assumes "m \<le> m'"
  shows "1 \<le> m \<Longrightarrow> m' \<le> 12 \<Longrightarrow> days_before_month y m \<le> days_before_month y m'"
  using assms
proof (induction m' rule: int_ge_induct)
  case base
  show ?case by simp
next
  case (step i)
  have "days_before_month y (i + 1) = days_before_month y i + days_in_month y i"
    using step.hyps step.prems by (intro days_before_month_step) simp_all
  moreover have "28 \<le> days_in_month y i"
    using step.hyps step.prems by (intro days_in_month_ge) simp_all
  moreover have "days_before_month y m \<le> days_before_month y i"
    using step.IH step.prems by simp
  ultimately show ?case by linarith
qed

lemma month_order:
  assumes "1 \<le> m1" "m1 < m2" "m2 \<le> 12"
  shows "days_before_month y m1 + days_in_month y m1 \<le> days_before_month y m2"
proof -
  have "days_before_month y (m1 + 1) = days_before_month y m1 + days_in_month y m1"
    using assms by (intro days_before_month_step) simp_all
  moreover have "days_before_month y (m1 + 1) \<le> days_before_month y m2"
    using assms by (intro days_before_month_mono) simp_all
  ultimately show ?thesis by simp
qed

lemma year_end:
  assumes "valid_date y m d"
  shows "days_before_year y < ymd2ord y m d" "ymd2ord y m d \<le> days_before_year (y + 1)"
proof -
  have "m \<in> {1, 2, 3, 4, 5, 6, 7, 8, 9, 10, 11, 12}"
    using assms unfolding valid_date_def by (intro int_range_12) simp_all
  then have "0 \<le> days_before_month y m"
    "days_before_month y m + days_in_month y m \<le> 365 + (if is_leap y then 1 else 0)"
    by (auto simp: days_before_month_def days_in_month_def DAYS_IN_MONTH_def DAYS_BEFORE_MONTH_def)
  then show "days_before_year y < ymd2ord y m d" "ymd2ord y m d \<le> days_before_year (y + 1)"
    using assms days_before_year_step [of y] unfolding valid_date_def ymd2ord_def
    by (simp_all split: if_splits)
qed

lemma ymd2ord_mono:
  assumes "valid_date y1 m1 d1" "valid_date y2 m2 d2"
    and "y1 < y2 \<or> (y1 = y2 \<and> (m1 < m2 \<or> (m1 = m2 \<and> d1 < d2)))"
  shows "ymd2ord y1 m1 d1 < ymd2ord y2 m2 d2"
proof (cases "y1 < y2")
  case True
  then have "days_before_year (y1 + 1) \<le> days_before_year y2"
    by (intro days_before_year_mono) simp
  then show ?thesis using year_end(2) [OF assms(1)] year_end(1) [OF assms(2)] by linarith
next
  case False
  then have y: "y1 = y2" and md: "m1 < m2 \<or> (m1 = m2 \<and> d1 < d2)" using assms(3) by auto
  show ?thesis
  proof (cases "m1 < m2")
    case True
    then have "days_before_month y1 m1 + days_in_month y1 m1 \<le> days_before_month y1 m2"
      using assms(1,2) unfolding valid_date_def by (intro month_order) simp_all
    then show ?thesis using assms(1,2) y unfolding valid_date_def ymd2ord_def by simp
  next
    case False
    then show ?thesis using md y unfolding ymd2ord_def by simp
  qed
qed

lemma ymd2ord_inj:
  assumes "valid_date y1 m1 d1" "valid_date y2 m2 d2" "ymd2ord y1 m1 d1 = ymd2ord y2 m2 d2"
  shows "y1 = y2 \<and> m1 = m2 \<and> d1 = d2"
proof (rule ccontr)
  assume "\<not> ?thesis"
  then have "(y1 < y2 \<or> (y1 = y2 \<and> (m1 < m2 \<or> (m1 = m2 \<and> d1 < d2))))
           \<or> (y2 < y1 \<or> (y2 = y1 \<and> (m2 < m1 \<or> (m2 = m1 \<and> d2 < d1))))" by linarith
  then show False
    using ymd2ord_mono [OF assms(1,2)] ymd2ord_mono [OF assms(2,1)] assms(3) by auto
qed

lemma ord2ymd_ymd2ord:
  assumes "valid_date y m d"
  shows "ord2ymd (ymd2ord y m d) = (y, m, d)"
proof -
  obtain y' m' d' where r: "ord2ymd (ymd2ord y m d) = (y', m', d')"
    by (cases "ord2ymd (ymd2ord y m d)") auto
  from ord2ymd_correct [OF r] have "valid_date y' m' d'" "ymd2ord y' m' d' = ymd2ord y m d"
    unfolding valid_date_def by simp_all
  with ymd2ord_inj [OF this(1) assms] r show ?thesis by simp
qed

lemma EPOCH_ORD_eq: "EPOCH_ORD = 719163"
  by (simp add: EPOCH_ORD_def ymd2ord_def days_before_year_def days_before_month_def
      DAYS_BEFORE_MONTH_def is_leap_def)

lemma MAXORDINAL_eq: "MAXORDINAL = 3652059"
  by (simp add: MAXORDINAL_def ymd2ord_def days_before_year_def days_before_month_def
      DAYS_BEFORE_MONTH_def is_leap_def)

lemma days_before_year_1: "days_before_year 1 = 0"
  by (simp add: days_before_year_def)

lemma days_before_year_10000: "days_before_year 10000 = 3652059"
  by (simp add: days_before_year_def)

lemma ymd2ord_range:
  assumes "valid_date y m d" "1 \<le> y" "y \<le> 9999"
  shows "1 \<le> ymd2ord y m d" "ymd2ord y m d \<le> 3652059"
proof -
  have "days_before_year 1 \<le> days_before_year y" using assms(2) by (rule days_before_year_mono)
  then show "1 \<le> ymd2ord y m d" using year_end(1) [OF assms(1)] days_before_year_1 by linarith
  have "y + 1 \<le> 10000" using assms(3) by simp
  then have "days_before_year (y + 1) \<le> days_before_year 10000" by (rule days_before_year_mono)
  then show "ymd2ord y m d \<le> 3652059"
    using year_end(2) [OF assms(1)] days_before_year_10000 by linarith
qed

lemma ord2ymd_year_range:
  assumes "ord2ymd n = (y, m, d)" "1 \<le> n" "n \<le> 3652059"
  shows "1 \<le> y" "y \<le> 9999"
proof -
  from ord2ymd_correct [OF assms(1)]
  have v: "valid_date y m d" and e: "ymd2ord y m d = n" unfolding valid_date_def by simp_all
  show "1 \<le> y"
  proof (rule ccontr)
    assume "\<not> 1 \<le> y"
    then have "y + 1 \<le> 1" by simp
    then have "days_before_year (y + 1) \<le> days_before_year 1" by (rule days_before_year_mono)
    then show False using year_end(2) [OF v] e assms(2) days_before_year_1 by linarith
  qed
  show "y \<le> 9999"
  proof (rule ccontr)
    assume "\<not> y \<le> 9999"
    then have "10000 \<le> y" by simp
    then have "days_before_year 10000 \<le> days_before_year y" by (rule days_before_year_mono)
    then show False using year_end(1) [OF v] e assms(3) days_before_year_10000 by linarith
  qed
qed

text \<open>Seconds of the day.\<close>

lemma hms_compose:
  assumes "0 \<le> h" "h < 24" "0 \<le> mi" "mi < 60" "0 \<le> s" "s < (60::int)"
  defines "r \<equiv> (h * 60 + mi) * 60 + s"
  shows "0 \<le> r" "r < 86400" "r div 3600 = h" "r mod 3600 div 60 = mi" "r mod 60 = s"
proof -
  show "0 \<le> r" "r < 86400" using assms by simp_all
  have a: "r = 3600 * h + (60 * mi + s)" unfolding r_def by simp
  have b: "0 \<le> 60 * mi + s" "60 * mi + s < 3600" using assms by simp_all
  show "r div 3600 = h" unfolding a using b by (rule div_decomp)
  have "r mod 3600 = 60 * mi + s" unfolding a using b by (rule mod_decomp)
  moreover have "(60 * mi + s) div 60 = mi" using assms(5,6) by (rule div_decomp)
  ultimately show "r mod 3600 div 60 = mi" by simp
  have "r = 60 * (h * 60 + mi) + s" unfolding r_def by simp
  then show "r mod 60 = s" using mod_decomp [OF assms(5,6), of "h * 60 + mi"] by simp
qed

lemma hms_decompose:
  fixes r :: int
  assumes "0 \<le> r" "r < 86400"
  defines "h \<equiv> r div 3600" and "mi \<equiv> r mod 3600 div 60" and "s \<equiv> r mod 60"
  shows "0 \<le> h" "h < 24" "0 \<le> mi" "mi < 60" "0 \<le> s" "s < 60"
    "(h * 60 + mi) * 60 + s = r"
proof -
  define r' where "r' = r mod 3600"
  have e1: "r = 3600 * h + r'" "0 \<le> r'" "r' < 3600" unfolding h_def r'_def by simp_all
  have "r mod 60 = r mod 3600 mod 60" by (rule mod_mod_cancel [symmetric]) simp
  then have s: "s = r' mod 60" unfolding s_def r'_def .
  have e2: "r' = 60 * mi + s" "0 \<le> s" "s < 60"
    unfolding mi_def s r'_def by simp_all
  show "0 \<le> h" "h < 24" using e1 assms(1,2) by linarith+
  show "0 \<le> mi" "mi < 60" using e1(2,3) e2 by linarith+
  show "0 \<le> s" "s < 60" using e2 by simp_all
  show "(h * 60 + mi) * 60 + s = r" using e1(1) e2(1) by (simp add: algebra_simps)
qed

section \<open>The timestamp codec\<close>

lemma valid_datetime_date:
  assumes "valid_datetime t"
  shows "valid_date (year t) (month t) (day t)" "1 \<le> year t" "year t \<le> 9999"
  using assms unfolding valid_datetime_def valid_date_def MINYEAR_def MAXYEAR_def by simp_all

lemma timegm_valid:
  assumes "valid_datetime t"
  shows "timegm (timetuple t) = Inr (total_seconds t)"
proof -
  have d: "1 \<le> days_in_month (year t) (month t)"
    using assms unfolding valid_datetime_def by linarith
  have o: "date_toordinal (year t) (month t) 1 = Inr (ymd2ord (year t) (month t) 1)"
    using assms d unfolding date_toordinal_def valid_datetime_def by simp
  show ?thesis
    by (simp add: timegm_def timetuple_def o total_seconds_def EPOCH_ORD_eq ymd2ord_def
        algebra_simps)
qed

lemma encode_valid:
  assumes "valid_datetime t" "tzinfo t = Some tz" "utcoffset tz = Some 0"
  shows "datetime_to_microseconds_since_epoch (VDatetime t) = Inr (total_microseconds t)"
  using assms timegm_valid [OF assms(1)]
  by (simp add: not_utc_def total_microseconds_def SECOND_TO_MICROSECONDS_def)


lemma total_seconds_split:
  assumes "valid_datetime t"
  shows "total_seconds t div 86400 = ymd2ord (year t) (month t) (day t) - 719163"
    and "total_seconds t mod 86400 = (hour t * 60 + minute t) * 60 + second t"
proof -
  let ?r = "(hour t * 60 + minute t) * 60 + second t"
  let ?d = "ymd2ord (year t) (month t) (day t) - 719163"
  have b: "0 \<le> ?r" "?r < 86400"
    using assms unfolding valid_datetime_def by (intro hms_compose; simp)+
  have e: "total_seconds t = 86400 * ?d + ?r" unfolding total_seconds_def by simp
  show "total_seconds t div 86400 = ?d" unfolding e using b by (rule div_decomp)
  show "total_seconds t mod 86400 = ?r" unfolding e using b by (rule mod_decomp)
qed

lemma total_microseconds_split:
  assumes "valid_datetime t"
  shows "total_microseconds t div 1000000 = total_seconds t"
    and "total_microseconds t mod 1000000 = microsecond t"
proof -
  have b: "0 \<le> microsecond t" "microsecond t < 1000000"
    using assms unfolding valid_datetime_def by simp_all
  have e: "total_microseconds t = 1000000 * total_seconds t + microsecond t"
    unfolding total_microseconds_def by simp
  show "total_microseconds t div 1000000 = total_seconds t" unfolding e using b by (rule div_decomp)
  show "total_microseconds t mod 1000000 = microsecond t" unfolding e using b by (rule mod_decomp)
qed

lemma utcfromtimestamp_total_seconds:
  assumes "valid_datetime t"
  shows "utcfromtimestamp (total_seconds t) = Inr (t\<lparr>microsecond := 0, tzinfo := None\<rparr>)"
proof -
  note v = valid_datetime_date [OF assms]
  let ?n = "ymd2ord (year t) (month t) (day t)"
  let ?r = "(hour t * 60 + minute t) * 60 + second t"
  have r: "1 \<le> ?n" "?n \<le> 3652059" using v by (intro ymd2ord_range; simp)+
  have o: "ord2ymd ?n = (year t, month t, day t)" using v(1) by (rule ord2ymd_ymd2ord)
  have h: "?r div 3600 = hour t" "?r mod 3600 div 60 = minute t" "?r mod 60 = second t"
    using assms unfolding valid_datetime_def by (intro hms_compose; simp)+
  show ?thesis
    unfolding utcfromtimestamp_def Let_def total_seconds_split [OF assms] EPOCH_ORD_eq MAXORDINAL_eq
    using r o h by simp
qed

lemma decode_encode:
  assumes "valid_datetime t"
  shows "int_microseconds_to_datetime (total_microseconds t) = Inr (t\<lparr>tzinfo := Some UTC\<rparr>)"
proof -
  have b: "0 \<le> microsecond t" "microsecond t < 1000000"
    using assms unfolding valid_datetime_def by simp_all
  show ?thesis
    unfolding int_microseconds_to_datetime_def SECOND_TO_MICROSECONDS_def Let_def
      total_microseconds_split [OF assms] utcfromtimestamp_total_seconds [OF assms]
    using b by (simp add: replace_microsecond_def add_utc_tz_def)
qed

lemma decode_in_range:
  assumes "MIN_ENCODED \<le> n" "n \<le> MAX_ENCODED"
  shows "\<exists>t. int_microseconds_to_datetime n = Inr t \<and> valid_datetime t
             \<and> tzinfo t = Some UTC \<and> total_microseconds t = n"
proof -
  define s where "s = n div 1000000"
  define us where "us = n mod 1000000"
  define dd where "dd = s div 86400"
  define r where "r = s mod 86400"
  have n: "n = 1000000 * s + us" "0 \<le> us" "us < 1000000" unfolding s_def us_def by simp_all
  have s: "s = 86400 * dd + r" "0 \<le> r" "r < 86400" unfolding dd_def r_def by simp_all
  have sr: "- 62135596800 \<le> s" "s \<le> 253402300799"
    using assms n unfolding MIN_ENCODED_def MAX_ENCODED_def by linarith+
  have dr: "- 719162 \<le> dd" "dd \<le> 2932896" using sr s by linarith+
  obtain y m d where o: "ord2ymd (dd + 719163) = (y, m, d)"
    by (cases "ord2ymd (dd + 719163)") auto
  from ord2ymd_correct [OF o]
  have md: "1 \<le> m" "m \<le> 12" "1 \<le> d" "d \<le> days_in_month y m"
    and yo: "ymd2ord y m d = dd + 719163" by simp_all
  have yr: "1 \<le> y" "y \<le> 9999" using dr by (intro ord2ymd_year_range [OF o]; simp)+
  define hh where "hh = r div 3600"
  define mm where "mm = r mod 3600 div 60"
  define ss where "ss = r mod 60"
  note h = hms_decompose [OF s(2,3), folded hh_def mm_def ss_def]
  define t where "t = \<lparr>year = y, month = m, day = d, hour = hh,
    minute = mm, second = ss, microsecond = us, tzinfo = Some UTC\<rparr>"
  have f: "year t = y" "month t = m" "day t = d" "hour t = hh" "minute t = mm"
    "second t = ss" "microsecond t = us" "tzinfo t = Some UTC"
    by (simp_all add: t_def)
  have o': "ord2ymd (s div 86400 + 719163) = (y, m, d)" using o unfolding dd_def .
  have rng: "\<not> (s div 86400 + 719163 < 1 \<or> s div 86400 + 719163 > 3652059)"
    using dr unfolding dd_def by linarith
  have "utcfromtimestamp s = Inr (t\<lparr>microsecond := 0, tzinfo := None\<rparr>)"
    unfolding utcfromtimestamp_def Let_def EPOCH_ORD_eq MAXORDINAL_eq o' if_not_P [OF rng]
      r_def [symmetric] hh_def [symmetric] mm_def [symmetric] ss_def [symmetric]
    by (simp add: t_def)
  then have dec: "int_microseconds_to_datetime n = Inr t"
    unfolding int_microseconds_to_datetime_def SECOND_TO_MICROSECONDS_def Let_def
      s_def [symmetric] us_def [symmetric]
    using n(2,3) by (simp add: replace_microsecond_def add_utc_tz_def t_def)
  have val: "valid_datetime t"
    unfolding valid_datetime_def f MINYEAR_def MAXYEAR_def
    by (intro conjI yr md h(1-6) n(2,3))
  have "total_seconds t = s"
    unfolding total_seconds_def f yo s(1) using h(7) by simp
  then have "total_microseconds t = n"
    unfolding total_microseconds_def f using n(1) by simp
  with dec val f(8) show ?thesis by blast
qed

lemma decode_out_of_range:
  assumes "n < MIN_ENCODED \<or> MAX_ENCODED < n"
  shows "int_microseconds_to_datetime n = Inl (ValueError ''year is out of range'')"
proof -
  define s where "s = n div 1000000"
  define us where "us = n mod 1000000"
  define dd where "dd = s div 86400"
  define r where "r = s mod 86400"
  have n: "n = 1000000 * s + us" "0 \<le> us" "us < 1000000" unfolding s_def us_def by simp_all
  have s: "s = 86400 * dd + r" "0 \<le> r" "r < 86400" unfolding dd_def r_def by simp_all
  have "s < - 62135596800 \<or> 253402300799 < s"
    using assms n unfolding MIN_ENCODED_def MAX_ENCODED_def by linarith
  then have "dd + 719163 < 1 \<or> 3652059 < dd + 719163" using s by linarith
  then have "utcfromtimestamp s = Inl (ValueError ''year is out of range'')"
    unfolding utcfromtimestamp_def Let_def dd_def [symmetric] r_def [symmetric]
      EPOCH_ORD_eq MAXORDINAL_eq
    by auto
  then show ?thesis
    unfolding int_microseconds_to_datetime_def SECOND_TO_MICROSECONDS_def s_def [symmetric]
    by simp
qed

lemma mixed_radix_less:
  fixes a b c k r r' :: int
  assumes "a < b" "0 \<le> r" "r' < k" "0 \<le> k"
  shows "(a - c) * k + r' < (b - c) * k + r"
proof -
  have "(a - c + 1) * k \<le> (b - c) * k"
    by (rule mult_right_mono) (use assms in simp_all)
  then have "(a - c) * k + k \<le> (b - c) * k" by (simp add: algebra_simps)
  then show ?thesis using assms(2,3) by linarith
qed

lemma total_seconds_mono:
  assumes "valid_datetime t1" "valid_datetime t2"
    and "ord_class.lexordp [year t1, month t1, day t1, hour t1, minute t1, second t1]
                     [year t2, month t2, day t2, hour t2, minute t2, second t2]"
  shows "total_seconds t1 < total_seconds t2"
proof -
  note v1 = valid_datetime_date [OF assms(1)] and v2 = valid_datetime_date [OF assms(2)]
  let ?o1 = "ymd2ord (year t1) (month t1) (day t1)"
  let ?o2 = "ymd2ord (year t2) (month t2) (day t2)"
  let ?r1 = "(hour t1 * 60 + minute t1) * 60 + second t1"
  let ?r2 = "(hour t2 * 60 + minute t2) * 60 + second t2"
  have b1: "0 \<le> ?r1" "?r1 < 86400"
    using assms(1) unfolding valid_datetime_def by (intro hms_compose; simp)+
  have b2: "0 \<le> ?r2" "?r2 < 86400"
    using assms(2) unfolding valid_datetime_def by (intro hms_compose; simp)+
  have lex: "year t1 < year t2 \<or> (year t1 = year t2 \<and> (month t1 < month t2
             \<or> (month t1 = month t2 \<and> (day t1 < day t2
             \<or> (day t1 = day t2 \<and> (hour t1 < hour t2
             \<or> (hour t1 = hour t2 \<and> (minute t1 < minute t2
             \<or> (minute t1 = minute t2 \<and> second t1 < second t2)))))))))"
    using assms(3) by auto
  consider
    (date) "year t1 < year t2 \<or> (year t1 = year t2 \<and> (month t1 < month t2
             \<or> (month t1 = month t2 \<and> day t1 < day t2)))"
  | (time) "year t1 = year t2" "month t1 = month t2" "day t1 = day t2"
      "hour t1 < hour t2 \<or> (hour t1 = hour t2 \<and> (minute t1 < minute t2
             \<or> (minute t1 = minute t2 \<and> second t1 < second t2)))"
    using lex by blast
  then show ?thesis
  proof cases
    case date
    then have "?o1 < ?o2" by (rule ymd2ord_mono [OF v1(1) v2(1)])
    then show ?thesis unfolding total_seconds_def using b1 b2
      by (intro mixed_radix_less) simp_all
  next
    case time
    have "?r1 < ?r2"
      using time(4) assms(1,2) unfolding valid_datetime_def by auto
    then show ?thesis unfolding total_seconds_def using time(1-3) by simp
  qed
qed

lemma is_utc_iff: "is_utc t \<longleftrightarrow> tzinfo t = Some UTC"
  by (cases "tzinfo t"; cases "the (tzinfo t)") (auto simp: is_utc_def UTC_def)

lemma set_utc_id: "is_utc t \<Longrightarrow> t\<lparr>tzinfo := Some UTC\<rparr> = t"
  by (simp add: is_utc_iff)

lemma encode_utc:
  assumes "valid_datetime t" "is_utc t"
  shows "datetime_to_microseconds_since_epoch (VDatetime t) = Inr (total_microseconds t)"
  using assms(2) encode_valid [OF assms(1)] by (auto simp: is_utc_def split: option.splits)

lemma lexordp_snoc:
  fixes xs ys :: "int list"
  assumes "length xs = length ys"
  shows "ord_class.lexordp (xs @ [a]) (ys @ [b]) \<longleftrightarrow> ord_class.lexordp xs ys \<or> (xs = ys \<and> a < b)"
  using assms by (induction xs ys rule: list_induct2) auto

lemma total_microseconds_mono:
  assumes "valid_datetime t1" "valid_datetime t2" "datetime_lt t1 t2"
  shows "total_microseconds t1 < total_microseconds t2"
proof -
  let ?k1 = "[year t1, month t1, day t1, hour t1, minute t1, second t1]"
  let ?k2 = "[year t2, month t2, day t2, hour t2, minute t2, second t2]"
  have us: "0 \<le> microsecond t2" "microsecond t1 < 1000000"
    using assms(1,2) unfolding valid_datetime_def by simp_all
  have "cmp_key t1 = ?k1 @ [microsecond t1]" "cmp_key t2 = ?k2 @ [microsecond t2]"
    unfolding cmp_key_def by simp_all
  then have "ord_class.lexordp (?k1 @ [microsecond t1]) (?k2 @ [microsecond t2])"
    using assms(3) unfolding datetime_lt_def by (simp only:)
  then have "ord_class.lexordp ?k1 ?k2 \<or> (?k1 = ?k2 \<and> microsecond t1 < microsecond t2)"
    by (subst (asm) lexordp_snoc) simp_all
  then show ?thesis
  proof
    assume "ord_class.lexordp ?k1 ?k2"
    then have "total_seconds t1 < total_seconds t2" by (rule total_seconds_mono [OF assms(1,2)])
    then have "(total_seconds t1 - 0) * 1000000 + microsecond t1
               < (total_seconds t2 - 0) * 1000000 + microsecond t2"
      using us by (intro mixed_radix_less) simp_all
    then show ?thesis unfolding total_microseconds_def by simp
  next
    assume "?k1 = ?k2 \<and> microsecond t1 < microsecond t2"
    then show ?thesis unfolding total_microseconds_def total_seconds_def by simp
  qed
qed

lemma cmp_key_eq:
  assumes "cmp_key t1 = cmp_key t2"
  shows "total_microseconds t1 = total_microseconds t2"
  using assms unfolding cmp_key_def total_microseconds_def total_seconds_def by simp

lemma total_microseconds_less_iff:
  assumes "valid_datetime t1" "valid_datetime t2"
  shows "datetime_lt t1 t2 \<longleftrightarrow> total_microseconds t1 < total_microseconds t2"
proof
  assume "datetime_lt t1 t2"
  then show "total_microseconds t1 < total_microseconds t2"
    by (rule total_microseconds_mono [OF assms])
next
  assume l: "total_microseconds t1 < total_microseconds t2"
  have "ord_class.lexordp (cmp_key t1) (cmp_key t2) \<or> cmp_key t1 = cmp_key t2
        \<or> ord_class.lexordp (cmp_key t2) (cmp_key t1)"
    by (rule lexordp_linear)
  then consider "datetime_lt t1 t2" | "cmp_key t1 = cmp_key t2" | "datetime_lt t2 t1"
    unfolding datetime_lt_def by blast
  then show "datetime_lt t1 t2"
  proof cases
    case 1
    then show ?thesis .
  next
    case 2
    then have "total_microseconds t1 = total_microseconds t2" by (rule cmp_key_eq)
    then show ?thesis using l by simp
  next
    case 3
    then have "total_microseconds t2 < total_microseconds t1"
      by (rule total_microseconds_mono [OF assms(2,1)])
    then show ?thesis using l by simp
  qed
qed

lemma example_datetime_valid: "valid_datetime example_datetime"
  by (simp add: valid_datetime_def example_datetime_def MINYEAR_def MAXYEAR_def
      days_in_month_def DAYS_IN_MONTH_def)

lemma example_datetime_utc: "is_utc example_datetime"
  by (simp add: is_utc_def example_datetime_def UTC_def)

lemma example_datetime_later_valid: "valid_datetime example_datetime_later"
  by (simp add: valid_datetime_def example_datetime_later_def example_datetime_def
      MINYEAR_def MAXYEAR_def days_in_month_def DAYS_IN_MONTH_def)

lemma example_datetime_later_utc: "is_utc example_datetime_later"
  by (simp add: is_utc_def example_datetime_later_def example_datetime_def UTC_def)

subsection \<open>Round trip\<close>

text \<open>
  Claim C1, amended. Decoding the encoding of a valid UTC datetime \<open>t\<close> gives \<open>t\<close>
  back. Encoding the decoding of an integer \<open>n\<close> gives \<open>n\<close> back for every \<open>n\<close> that
  denotes an instant a datetime can hold, years 1 to 9999, that is
  \<open>MIN_ENCODED \<le> n \<le> MAX_ENCODED\<close>; zero and the negative integers down to
  \<open>MIN_ENCODED\<close> are among them.
\<close>

theorem timestamp_round_trip:
  "(valid_datetime t \<and> is_utc t \<longrightarrow>
      (\<exists>n. datetime_to_microseconds_since_epoch (VDatetime t) = Inr n
           \<and> microseconds_since_epoch_to_datetime (VInt n) = Inr t))
   \<and> (MIN_ENCODED \<le> n \<and> n \<le> MAX_ENCODED \<longrightarrow>
      (\<exists>t'. microseconds_since_epoch_to_datetime (VInt n) = Inr t'
            \<and> datetime_to_microseconds_since_epoch (VDatetime t') = Inr n))"
proof (intro conjI impI)
  assume a: "valid_datetime t \<and> is_utc t"
  then have "datetime_to_microseconds_since_epoch (VDatetime t) = Inr (total_microseconds t)"
    using encode_utc by blast
  moreover have "int_microseconds_to_datetime (total_microseconds t) = Inr t"
    using a decode_encode [of t] set_utc_id [of t] by simp
  then have "microseconds_since_epoch_to_datetime (VInt (total_microseconds t)) = Inr t"
    by simp
  ultimately show "\<exists>n. datetime_to_microseconds_since_epoch (VDatetime t) = Inr n
           \<and> microseconds_since_epoch_to_datetime (VInt n) = Inr t" by blast
next
  assume "MIN_ENCODED \<le> n \<and> n \<le> MAX_ENCODED"
  then obtain t' where t': "int_microseconds_to_datetime n = Inr t'" "valid_datetime t'"
    "tzinfo t' = Some UTC" "total_microseconds t' = n"
    using decode_in_range [of n] by blast
  then have "datetime_to_microseconds_since_epoch (VDatetime t') = Inr n"
    using encode_utc [of t'] is_utc_iff [of t'] by metis
  with t'(1) show "\<exists>t'. microseconds_since_epoch_to_datetime (VInt n) = Inr t'
            \<and> datetime_to_microseconds_since_epoch (VDatetime t') = Inr n" by auto
qed

theorem timestamp_round_trip_witness:
  "valid_datetime example_datetime \<and> is_utc example_datetime
   \<and> (\<exists>n. datetime_to_microseconds_since_epoch (VDatetime example_datetime) = Inr n
           \<and> microseconds_since_epoch_to_datetime (VInt n) = Inr example_datetime)
   \<and> MIN_ENCODED \<le> - 1 \<and> - 1 \<le> MAX_ENCODED
   \<and> (\<exists>t'. microseconds_since_epoch_to_datetime (VInt (- 1)) = Inr t'
            \<and> datetime_to_microseconds_since_epoch (VDatetime t') = Inr (- 1))"
proof -
  have r: "MIN_ENCODED \<le> - 1 \<and> - 1 \<le> MAX_ENCODED"
    by (simp add: MIN_ENCODED_def MAX_ENCODED_def)
  show ?thesis
    using timestamp_round_trip [of example_datetime "- 1"]
      example_datetime_valid example_datetime_utc r
    by blast
qed

text \<open>
  The second half of C1 as stated, for every 64-bit integer, fails: the largest 64-bit
  integer lies in the year 294247, and decoding it raises.
\<close>

theorem timestamp_round_trip_counterexample:
  "microseconds_since_epoch_to_datetime (VInt 9223372036854775807)
   = Inl (ValueError ''year is out of range'')"
proof -
  have "int_microseconds_to_datetime 9223372036854775807
        = Inl (ValueError ''year is out of range'')"
    by (rule decode_out_of_range) (simp add: MAX_ENCODED_def)
  then show ?thesis by simp
qed

subsection \<open>Order\<close>

text \<open>
  Claim C2. For valid UTC datetimes \<open>t1\<close> and \<open>t2\<close> both encodings exist, and \<open>t1\<close> is
  chronologically before \<open>t2\<close> exactly when the encoding of \<open>t1\<close> is the smaller
  integer.
\<close>

theorem encode_strictly_monotone:
  assumes "valid_datetime t1" "is_utc t1" "valid_datetime t2" "is_utc t2"
  shows "\<exists>n1 n2. datetime_to_microseconds_since_epoch (VDatetime t1) = Inr n1
               \<and> datetime_to_microseconds_since_epoch (VDatetime t2) = Inr n2
               \<and> (datetime_lt t1 t2 \<longleftrightarrow> n1 < n2)"
  using encode_utc [OF assms(1,2)] encode_utc [OF assms(3,4)]
    total_microseconds_less_iff [OF assms(1,3)]
  by blast

theorem encode_strictly_monotone_witness:
  "valid_datetime example_datetime \<and> is_utc example_datetime
   \<and> valid_datetime example_datetime_later \<and> is_utc example_datetime_later
   \<and> (\<exists>n1 n2. datetime_to_microseconds_since_epoch (VDatetime example_datetime) = Inr n1
               \<and> datetime_to_microseconds_since_epoch (VDatetime example_datetime_later) = Inr n2
               \<and> (datetime_lt example_datetime example_datetime_later \<longleftrightarrow> n1 < n2))"
  using encode_strictly_monotone [OF example_datetime_valid example_datetime_utc
      example_datetime_later_valid example_datetime_later_utc]
    example_datetime_valid example_datetime_utc
    example_datetime_later_valid example_datetime_later_utc
  by blast

subsection \<open>Time zone check\<close>



subsection \<open>Reading: \<open>to_python\<close>\<close>

lemma to_python_cases:
  "ComplexDateTimeField_to_python v =
     (case convert_from_db v of Inr d \<Rightarrow> Inr (VDatetime d) | Inl e \<Rightarrow> Inr v)"
  by (simp add: ComplexDateTimeField_to_python_def)

text \<open>
  Claim C8. \<open>to_python\<close> returns for every value, and never raises. When the value
  decodes, the result is the decoded datetime, which is the case for every integer
  between \<open>MIN_ENCODED\<close> and \<open>MAX_ENCODED\<close>. When decoding raises, the result is the
  value itself; a value that is a datetime already is such a value.
\<close>

theorem to_python_tolerant:
  "(\<exists>r. ComplexDateTimeField_to_python v = Inr r)
   \<and> (\<forall>d. convert_from_db v = Inr d \<longrightarrow> ComplexDateTimeField_to_python v = Inr (VDatetime d))
   \<and> (\<forall>e. convert_from_db v = Inl e \<longrightarrow> ComplexDateTimeField_to_python v = Inr v)
   \<and> (MIN_ENCODED \<le> n \<and> n \<le> MAX_ENCODED \<longrightarrow>
        (\<exists>d. ComplexDateTimeField_to_python (VInt n) = Inr (VDatetime d)
             \<and> datetime_to_microseconds_since_epoch (VDatetime d) = Inr n))
   \<and> ComplexDateTimeField_to_python (VDatetime t) = Inr (VDatetime t)"
proof (intro conjI allI impI)
  show "\<exists>r. ComplexDateTimeField_to_python v = Inr r"
    unfolding to_python_cases by (cases "convert_from_db v") simp_all
next
  fix d assume "convert_from_db v = Inr d"
  then show "ComplexDateTimeField_to_python v = Inr (VDatetime d)"
    unfolding to_python_cases by simp
next
  fix e assume "convert_from_db v = Inl e"
  then show "ComplexDateTimeField_to_python v = Inr v"
    unfolding to_python_cases by simp
next
  assume "MIN_ENCODED \<le> n \<and> n \<le> MAX_ENCODED"
  then obtain d where d: "int_microseconds_to_datetime n = Inr d" "valid_datetime d"
    "tzinfo d = Some UTC" "total_microseconds d = n"
    using decode_in_range [of n] by blast
  have "datetime_to_microseconds_since_epoch (VDatetime d) = Inr n"
    using encode_utc [of d] is_utc_iff [of d] d(2,3,4) by metis
  moreover have "ComplexDateTimeField_to_python (VInt n) = Inr (VDatetime d)"
    unfolding to_python_cases convert_from_db_def using d(1) by simp
  ultimately show "\<exists>d. ComplexDateTimeField_to_python (VInt n) = Inr (VDatetime d)
             \<and> datetime_to_microseconds_since_epoch (VDatetime d) = Inr n" by blast
next
  show "ComplexDateTimeField_to_python (VDatetime t) = Inr (VDatetime t)"
    unfolding to_python_cases convert_from_db_def by simp
qed

lemma example_decode:
  "convert_from_db (VInt 1615804200123456) = Inr example_datetime"
proof -
  have "total_microseconds example_datetime = 1615804200123456"
    by (simp add: total_microseconds_def total_seconds_def example_datetime_def ymd2ord_def
        days_before_year_def days_before_month_def DAYS_BEFORE_MONTH_def is_leap_def)
  then have "int_microseconds_to_datetime 1615804200123456 = Inr example_datetime"
    using decode_encode [OF example_datetime_valid] set_utc_id [OF example_datetime_utc]
    by simp
  then show ?thesis by (simp add: convert_from_db_def)
qed

theorem to_python_tolerant_witness:
  "convert_from_db (VInt 1615804200123456) = Inr example_datetime
   \<and> ComplexDateTimeField_to_python (VInt 1615804200123456) = Inr (VDatetime example_datetime)
   \<and> convert_from_db (VStr (ascii ''2021-03-15'')) = Inl TypeError
   \<and> ComplexDateTimeField_to_python (VStr (ascii ''2021-03-15'')) = Inr (VStr (ascii ''2021-03-15''))
   \<and> MIN_ENCODED \<le> 0 \<and> 0 \<le> MAX_ENCODED
   \<and> (\<exists>d. ComplexDateTimeField_to_python (VInt 0) = Inr (VDatetime d)
           \<and> datetime_to_microseconds_since_epoch (VDatetime d) = Inr 0)"
proof -
  have 1: "convert_from_db (VStr (ascii ''2021-03-15'')) = Inl TypeError"
    by (simp add: convert_from_db_def)
  have 2: "MIN_ENCODED \<le> 0 \<and> 0 \<le> MAX_ENCODED"
    by (simp add: MIN_ENCODED_def MAX_ENCODED_def)
  show ?thesis
    using to_python_tolerant [of "VInt 1615804200123456" 0]
      to_python_tolerant [of "VStr (ascii ''2021-03-15'')" 0]
      example_decode 1 2
    by blast
qed

subsection \<open>The descriptor: \<open>__set__\<close> and \<open>__get__\<close>\<close>

lemma BaseField_get_set: "BaseField_get name (BaseField_set name inst v) = v"
  by (simp add: BaseField_get_def BaseField_set_def)

text \<open>
  Claim C10. \<open>__set__\<close> converts the value only when it is truthy: a falsy value, \<open>None\<close>
  among them, is stored as it is and nothing is raised. \<open>__get__\<close> returns \<open>None\<close> when
  the stored value is \<open>None\<close>, and returns a stored datetime as it is. So \<open>None\<close>, once
  set, is what \<open>__get__\<close> returns.
\<close>

theorem descriptor_passthrough:
  "(\<not> truthy v \<longrightarrow>
      ComplexDateTimeField_set name inst v = Inr (BaseField_set name inst v))
   \<and> (truthy v \<longrightarrow>
      ComplexDateTimeField_set name inst v =
        (case convert_from_datetime v of
           Inl e \<Rightarrow> Inl e
         | Inr n \<Rightarrow> Inr (BaseField_set name inst (VInt n))))
   \<and> ComplexDateTimeField_set name inst VNone = Inr (BaseField_set name inst VNone)
   \<and> (BaseField_get name inst = VNone \<longrightarrow> ComplexDateTimeField_get name inst = Inr VNone)
   \<and> (BaseField_get name inst = VDatetime d \<longrightarrow>
        ComplexDateTimeField_get name inst = Inr (VDatetime d))
   \<and> (\<exists>inst'. ComplexDateTimeField_set name inst VNone = Inr inst'
              \<and> ComplexDateTimeField_get name inst' = Inr VNone)"
proof (intro conjI impI)
  show "\<exists>inst'. ComplexDateTimeField_set name inst VNone = Inr inst'
              \<and> ComplexDateTimeField_get name inst' = Inr VNone"
    by (simp add: ComplexDateTimeField_set_def ComplexDateTimeField_get_def BaseField_get_set)
qed (simp_all add: ComplexDateTimeField_set_def ComplexDateTimeField_get_def)

theorem descriptor_passthrough_witness:
  "\<not> truthy (VInt 0)
   \<and> ComplexDateTimeField_set ''start'' Map.empty (VInt 0)
       = Inr (BaseField_set ''start'' Map.empty (VInt 0))
   \<and> truthy (VDatetime example_naive)
   \<and> ComplexDateTimeField_set ''start'' Map.empty (VDatetime example_naive)
       = Inl INVALID_TIMEZONE
   \<and> BaseField_get ''start'' Map.empty = VNone
   \<and> ComplexDateTimeField_get ''start'' Map.empty = Inr VNone
   \<and> BaseField_get ''start'' [''start'' \<mapsto> VDatetime example_naive] = VDatetime example_naive
   \<and> ComplexDateTimeField_get ''start'' [''start'' \<mapsto> VDatetime example_naive]
       = Inr (VDatetime example_naive)"
proof -
  have 1: "convert_from_datetime (VDatetime example_naive) = Inl INVALID_TIMEZONE"
    by (simp add: convert_from_datetime_def example_naive_def not_utc_def)
  have 2: "BaseField_get ''start'' Map.empty = VNone"
    "BaseField_get ''start'' [''start'' \<mapsto> VDatetime example_naive] = VDatetime example_naive"
    by (simp_all add: BaseField_get_def)
  show ?thesis
    using descriptor_passthrough [of "VInt 0" "''start''" Map.empty example_naive]
      descriptor_passthrough [of "VDatetime example_naive" "''start''"
        "[''start'' \<mapsto> VDatetime example_naive]" example_naive]
      descriptor_passthrough [of "VDatetime example_naive" "''start''" Map.empty example_naive]
      1 2
    by simp
qed

section \<open>The struct codec\<close>

lemma of_serialized_not_dict: "\<not> is_dict (of_serialized s)"
  by (cases s) simp_all

lemma as_serialized_of_serialized: "as_serialized (of_serialized s) = Some s"
  by (cases s) simp_all


lemma call_json_dumps_Inr:
  assumes "call_json_dumps self v = Inr r"
  shows "\<exists>dumps s. json_dumps self = Some dumps \<and> dumps v = Inr s \<and> r = of_serialized s"
  using assms unfolding call_json_dumps_def
  by (auto split: option.splits sum.splits)

subsection \<open>Construction\<close>

text \<open>
  Claim C9. Constructing the field with a backend name other than \<open>orjson\<close>, \<open>ujson\<close>
  and \<open>cjson\<close> raises the \<open>ValueError\<close> that names the backend. Each of the three names
  gives a field whose \<open>json_loads\<close> and \<open>json_dumps\<close> are the two functions of that
  library, and \<open>orjson\<close> is the choice when no name is given. Encoding with the field
  calls the \<open>dumps\<close> chosen at construction, and decoding the \<open>loads\<close>.
\<close>

theorem backend_validation:
  "(name \<notin> {''orjson'', ''ujson'', ''cjson''} \<longrightarrow>
      JSONDictField_init mods (Some name) = Inl (ValueError (''Unsupported backend: '' @ name)))
   \<and> JSONDictField_init mods (Some ''orjson'')
       = Inr \<lparr>json_loads = Some (orjson_loads mods), json_dumps = Some (orjson_dumps mods)\<rparr>
   \<and> JSONDictField_init mods (Some ''ujson'')
       = Inr \<lparr>json_loads = Some (ujson_loads mods), json_dumps = Some (ujson_dumps mods)\<rparr>
   \<and> JSONDictField_init mods (Some ''cjson'')
       = Inr \<lparr>json_loads = Some (cjson_decode mods), json_dumps = Some (cjson_encode mods)\<rparr>
   \<and> JSONDictField_init mods None = JSONDictField_init mods (Some ''orjson'')
   \<and> (\<forall>self. JSONDictField_init mods (Some name) = Inr self \<longrightarrow>
         (\<exists>loads dumps. json_loads self = Some loads \<and> json_dumps self = Some dumps
            \<and> (\<forall>m. JSONDictField_to_mongo self (VDict m)
                      = (case dumps (VDict m) of Inl e \<Rightarrow> Inl e | Inr s \<Rightarrow> Inr (of_serialized s)))
            \<and> (\<forall>s. JSONDictField_to_python self (of_serialized s) = loads s)))"
proof (intro conjI allI impI)
  fix self assume a: "JSONDictField_init mods (Some name) = Inr self"
  then consider "name = ''orjson''" | "name = ''ujson''" | "name = ''cjson''"
    unfolding JSONDictField_init_def by (auto split: if_splits)
  then have "\<exists>loads dumps. json_loads self = Some loads \<and> json_dumps self = Some dumps"
    using a unfolding JSONDictField_init_def by cases auto
  then obtain loads dumps where s: "json_loads self = Some loads" "json_dumps self = Some dumps"
    by blast
  have "\<forall>m. JSONDictField_to_mongo self (VDict m)
                = (case dumps (VDict m) of Inl e \<Rightarrow> Inl e | Inr s \<Rightarrow> Inr (of_serialized s))"
    by (simp add: JSONDictField_to_mongo_def call_json_dumps_def s)
  moreover have "\<forall>s. JSONDictField_to_python self (of_serialized s) = loads s"
    by (simp add: JSONDictField_to_python_def call_json_loads_def s as_serialized_of_serialized)
  ultimately show "\<exists>loads dumps. json_loads self = Some loads \<and> json_dumps self = Some dumps
            \<and> (\<forall>m. JSONDictField_to_mongo self (VDict m)
                      = (case dumps (VDict m) of Inl e \<Rightarrow> Inl e | Inr s \<Rightarrow> Inr (of_serialized s)))
            \<and> (\<forall>s. JSONDictField_to_python self (of_serialized s) = loads s)"
    using s by blast
qed (simp_all add: JSONDictField_init_def)

theorem backend_validation_witness:
  "''json'' \<notin> {''orjson'', ''ujson'', ''cjson''}
   \<and> JSONDictField_init example_modules (Some ''json'')
       = Inl (ValueError ''Unsupported backend: json'')
   \<and> JSONDictField_init example_modules (Some ''orjson'') = Inr example_field
   \<and> (\<exists>loads dumps. json_loads example_field = Some loads \<and> json_dumps example_field = Some dumps
            \<and> (\<forall>m. JSONDictField_to_mongo example_field (VDict m)
                      = (case dumps (VDict m) of Inl e \<Rightarrow> Inl e | Inr s \<Rightarrow> Inr (of_serialized s)))
            \<and> (\<forall>s. JSONDictField_to_python example_field (of_serialized s) = loads s))"
proof -
  have 1: "''json'' \<notin> {''orjson'', ''ujson'', ''cjson''}" by simp
  have 2: "\<lparr>json_loads = Some (orjson_loads example_modules),
             json_dumps = Some (orjson_dumps example_modules)\<rparr> = example_field"
    by (simp add: example_modules_def example_field_def)
  show ?thesis
    using backend_validation [of "''json''" example_modules]
      backend_validation [of "''orjson''" example_modules] 1 2
    by simp
qed

subsection \<open>The example library\<close>


lemma example_documents_distinct: "example_document \<noteq> restored_document"
  by (simp add: example_document_def restored_document_def)



lemma table_dumps_cases:
  "table_dumps mk v =
     (if v = example_document then Inr (mk example_json)
      else if v = restored_document then Inr (mk restored_json)
      else Inl TypeError)"
  by (auto simp: table_dumps_def example_table_def)





subsection \<open>Encoding\<close>

text \<open>
  Claim C7. \<open>to_mongo\<close>, of \<open>JSONDictField\<close> and of the compatibility field alike,
  raises the \<open>ValueError\<close> of the mapping check for every value that is not a mapping.
  For a mapping it is the call of the selected \<open>dumps\<close>: either that call raises, and so
  does \<open>to_mongo\<close>, or it returns the serialized form, and that is the result.
\<close>

theorem struct_encode_rejects_non_mappings:
  "(\<not> is_dict v \<longrightarrow>
      JSONDictField_to_mongo self v = Inl NOT_A_MAPPING
      \<and> JSONDictEscapedFieldCompatibilityField_to_mongo self v = Inl NOT_A_MAPPING)
   \<and> (is_dict v \<and> json_dumps self = Some dumps \<longrightarrow>
      JSONDictField_to_mongo self v
        = (case dumps v of Inl e \<Rightarrow> Inl e | Inr s \<Rightarrow> Inr (of_serialized s))
      \<and> JSONDictEscapedFieldCompatibilityField_to_mongo self v
        = (case dumps v of Inl e \<Rightarrow> Inl e | Inr s \<Rightarrow> Inr (of_serialized s)))"
  by (simp add: JSONDictField_to_mongo_def JSONDictEscapedFieldCompatibilityField_to_mongo_def
      call_json_dumps_def)

theorem struct_encode_rejects_non_mappings_witness:
  "\<not> is_dict (VInt 3)
   \<and> JSONDictField_to_mongo example_field (VInt 3) = Inl NOT_A_MAPPING
   \<and> JSONDictEscapedFieldCompatibilityField_to_mongo example_field (VInt 3) = Inl NOT_A_MAPPING
   \<and> is_dict example_document \<and> json_dumps example_field = Some (table_dumps as_bytes)
   \<and> JSONDictField_to_mongo example_field example_document
       = Inr (VBytes (ascii_bytes example_json))
   \<and> JSONDictEscapedFieldCompatibilityField_to_mongo example_field example_document
       = Inr (VBytes (ascii_bytes example_json))
   \<and> is_dict dollar_ref_document
   \<and> JSONDictField_to_mongo example_field dollar_ref_document = Inl TypeError"
proof -
  have 1: "is_dict example_document" "is_dict dollar_ref_document"
    by (simp_all add: example_document_def dollar_ref_document_def)
  have 2: "json_dumps example_field = Some (table_dumps as_bytes)"
    by (simp add: example_field_def)
  have 3: "table_dumps as_bytes example_document = Inr (as_bytes example_json)"
    by (simp add: table_dumps_cases)
  have 4: "table_dumps as_bytes dollar_ref_document = Inl TypeError"
    by (simp add: table_dumps_cases dollar_ref_document_def example_document_def
        restored_document_def ascii_def)
  show ?thesis
    using struct_encode_rejects_non_mappings [of "VInt 3" example_field "table_dumps as_bytes"]
      struct_encode_rejects_non_mappings [of example_document example_field "table_dumps as_bytes"]
      struct_encode_rejects_non_mappings [of dollar_ref_document example_field "table_dumps as_bytes"]
      1 2 3 4
    by (simp add: as_bytes_def)
qed

subsection \<open>Round trip\<close>





subsection \<open>The compatibility field\<close>

text \<open>
  Claim C5. \<open>to_mongo\<close> of the compatibility field is \<open>to_mongo\<close> of \<open>JSONDictField\<close>.
  Whatever it returns is the serialized form that the selected \<open>dumps\<close> returned for
  the value, text or bytes, and not a mapping; so too when the value was just decoded
  from a legacy mapping.
\<close>

theorem legacy_never_re_emitted:
  "JSONDictEscapedFieldCompatibilityField_to_mongo self v = JSONDictField_to_mongo self v
   \<and> (\<forall>r. JSONDictEscapedFieldCompatibilityField_to_mongo self v = Inr r \<longrightarrow>
         \<not> is_dict r
         \<and> (\<exists>dumps s. json_dumps self = Some dumps \<and> dumps v = Inr s \<and> r = of_serialized s))
   \<and> (\<forall>v' r. JSONDictEscapedFieldCompatibilityField_to_python self (VDict m) = Inr v'
         \<and> JSONDictEscapedFieldCompatibilityField_to_mongo self v' = Inr r \<longrightarrow>
         \<not> is_dict r
         \<and> (\<exists>dumps s. json_dumps self = Some dumps \<and> dumps v' = Inr s \<and> r = of_serialized s))"
proof -
  have eq: "JSONDictEscapedFieldCompatibilityField_to_mongo self x = JSONDictField_to_mongo self x"
    for x
    by (simp add: JSONDictEscapedFieldCompatibilityField_to_mongo_def JSONDictField_to_mongo_def)
  have out: "\<not> is_dict r
      \<and> (\<exists>dumps s. json_dumps self = Some dumps \<and> dumps x = Inr s \<and> r = of_serialized s)"
    if "JSONDictEscapedFieldCompatibilityField_to_mongo self x = Inr r" for x r
  proof -
    from that have "call_json_dumps self x = Inr r"
      unfolding JSONDictEscapedFieldCompatibilityField_to_mongo_def by (simp split: if_splits)
    from call_json_dumps_Inr [OF this] show ?thesis
      using of_serialized_not_dict by blast
  qed
  show ?thesis using eq out by blast
qed

theorem legacy_never_re_emitted_witness:
  "JSONDictEscapedFieldCompatibilityField_to_mongo example_field example_document
     = Inr (VBytes (ascii_bytes example_json))
   \<and> \<not> is_dict (VBytes (ascii_bytes example_json))
   \<and> JSONDictEscapedFieldCompatibilityField_to_python example_field legacy_document
     = Inr restored_document
   \<and> JSONDictEscapedFieldCompatibilityField_to_mongo example_field restored_document
     = Inr (VBytes (ascii_bytes restored_json))
   \<and> \<not> is_dict (VBytes (ascii_bytes restored_json))"
proof -
  have 1: "JSONDictEscapedFieldCompatibilityField_to_python example_field legacy_document
     = Inr restored_document"
    by (simp add: JSONDictEscapedFieldCompatibilityField_to_python_def legacy_document_def
        restored_document_def unescape_key_def unescape_char_def ascii_def
        ESCAPED_DOLLAR_def ESCAPED_DOT_def DOLLAR_def DOT_def)
  have 2: "JSONDictEscapedFieldCompatibilityField_to_mongo example_field restored_document
     = Inr (VBytes (ascii_bytes restored_json))"
    by (simp add: JSONDictEscapedFieldCompatibilityField_to_mongo_def call_json_dumps_def
        example_field_def table_dumps_cases as_bytes_def restored_document_def
        example_document_def ascii_def)
  have 3: "JSONDictEscapedFieldCompatibilityField_to_mongo example_field example_document
     = Inr (VBytes (ascii_bytes example_json))"
    by (simp add: JSONDictEscapedFieldCompatibilityField_to_mongo_def call_json_dumps_def
        example_field_def table_dumps_cases as_bytes_def example_document_def)
  show ?thesis
    using legacy_never_re_emitted [of example_field example_document
        "[(ascii ''a'' @ [0xFF04] @ ascii ''ref'', VInt 1)]"] 1 2 3
    by simp
qed

text \<open>
  Claim C4, amended. \<open>to_python\<close> of the compatibility field returns, for every native
  mapping, the mapping with each key unescaped (\<open>U+FF04\<close> back to \<open>$\<close>, \<open>U+FF0E\<close> back
  to \<open>.\<close>) and each value unescaped in turn: a nested mapping is walked in the same
  way, any other value is left as it is. Unescaping a key undoes its escaping whenever
  the key had none of the two escape characters in it. The legacy mapping with the key
  \<open>a\<close>, \<open>U+FF04\<close>, \<open>ref\<close> decodes to the mapping with the key \<open>a$ref\<close>.
\<close>

theorem legacy_decode_unescapes:
  "JSONDictEscapedFieldCompatibilityField_to_python self (VDict m)
     = Inr (VDict (map (\<lambda>(k, v). (unescape_key k, unescape_chars v)) m))
   \<and> (\<not> is_dict v \<longrightarrow> unescape_chars v = v)
   \<and> (ESCAPED_DOLLAR \<notin> set k \<and> ESCAPED_DOT \<notin> set k \<longrightarrow> unescape_key (escape_key k) = k)
   \<and> JSONDictEscapedFieldCompatibilityField_to_python self legacy_document
     = Inr restored_document"
proof (intro conjI impI)
  show "JSONDictEscapedFieldCompatibilityField_to_python self (VDict m)
     = Inr (VDict (map (\<lambda>(k, v). (unescape_key k, unescape_chars v)) m))"
    by (simp add: JSONDictEscapedFieldCompatibilityField_to_python_def)
next
  assume "\<not> is_dict v"
  then show "unescape_chars v = v" by (cases v) simp_all
next
  assume "ESCAPED_DOLLAR \<notin> set k \<and> ESCAPED_DOT \<notin> set k"
  then have "\<forall>c \<in> set k. unescape_char (escape_char c) = c"
    by (auto simp: unescape_char_def escape_char_def ESCAPED_DOLLAR_def ESCAPED_DOT_def
        DOLLAR_def DOT_def)
  then show "unescape_key (escape_key k) = k"
    unfolding unescape_key_def escape_key_def by (simp add: map_idI)
next
  show "JSONDictEscapedFieldCompatibilityField_to_python self legacy_document
     = Inr restored_document"
    by (simp add: JSONDictEscapedFieldCompatibilityField_to_python_def legacy_document_def
        restored_document_def unescape_key_def unescape_char_def ascii_def
        ESCAPED_DOLLAR_def ESCAPED_DOT_def DOLLAR_def DOT_def)
qed

theorem legacy_decode_unescapes_witness:
  "\<not> is_dict (VInt 1) \<and> unescape_chars (VInt 1) = VInt 1
   \<and> ESCAPED_DOLLAR \<notin> set (ascii ''a$ref'') \<and> ESCAPED_DOT \<notin> set (ascii ''a$ref'')
   \<and> unescape_key (escape_key (ascii ''a$ref'')) = ascii ''a$ref''
   \<and> JSONDictEscapedFieldCompatibilityField_to_python example_field legacy_document
     = Inr restored_document"
proof -
  have "ESCAPED_DOLLAR \<notin> set (ascii ''a$ref'') \<and> ESCAPED_DOT \<notin> set (ascii ''a$ref'')"
    by (simp add: ascii_def ESCAPED_DOLLAR_def ESCAPED_DOT_def)
  then show ?thesis
    using legacy_decode_unescapes [of example_field "[]" "VInt 1" "ascii ''a$ref''"]
    by simp
qed

text \<open>
  C4 as stated has the legacy mapping decode to the mapping with the key \<open>$ref\<close>.
  It does not: the \<open>a\<close> in front of the escaped \<open>$\<close> stays.
\<close>

theorem legacy_decode_unescapes_counterexample:
  "JSONDictEscapedFieldCompatibilityField_to_python example_field legacy_document
   \<noteq> Inr dollar_ref_document"
  by (simp add: JSONDictEscapedFieldCompatibilityField_to_python_def legacy_document_def
      dollar_ref_document_def unescape_key_def unescape_char_def ascii_def
      ESCAPED_DOLLAR_def ESCAPED_DOT_def DOLLAR_def DOT_def)


end
